theory Spec2Isabelle
  imports Main "HOL-Library.AList"
begin

section \<open>Strings as the loader uses them\<close>

text \<open>
  File names and identifiers are \<open>string\<close>s whose characters are the code units below
  256 (Latin-1). On these \<open>toLowerCase\<close> adds 32 to the letters \<open>A\<close> to \<open>Z\<close> (65 to 90)
  and to the capital letters from 192 to 222, the multiplication sign (215) excepted, and
  leaves every other code unit as it is. \<open>str_includes\<close> is \<open>String.prototype.includes\<close>:
  the second argument occurs in the first as a contiguous run. Identifiers that name a
  property which every JavaScript object inherits (\<open>constructor\<close>, \<open>toString\<close>, ...)
  are outside the model: the tables below are association lists and maps with no
  inherited keys.
\<close>

definition lowerChar :: "char \<Rightarrow> char" where
  "lowerChar c =
     (let n = (of_char c :: nat)
      in if (65 \<le> n \<and> n \<le> 90) \<or> (192 \<le> n \<and> n \<le> 222 \<and> n \<noteq> 215)
         then char_of (n + 32) else c)"

definition toLowerCase :: "string \<Rightarrow> string" where
  "toLowerCase s = map lowerChar s"

fun startsWith :: "string \<Rightarrow> string \<Rightarrow> bool" where
  "startsWith s [] = True"
| "startsWith [] (p # ps) = False"
| "startsWith (c # cs) (p # ps) = (c = p \<and> startsWith cs ps)"

fun str_includes :: "string \<Rightarrow> string \<Rightarrow> bool" where
  "str_includes [] p = (p = [])"
| "str_includes (c # cs) p = (startsWith (c # cs) p \<or> str_includes cs p)"

definition endsWith :: "string \<Rightarrow> string \<Rightarrow> bool" where
  "endsWith s suf = startsWith (rev s) (rev suf)"

text \<open>\<open>Array.prototype.find\<close>: the first element that passes, if any.\<close>

fun find_first :: "('a \<Rightarrow> bool) \<Rightarrow> 'a list \<Rightarrow> 'a option" where
  "find_first P [] = None"
| "find_first P (x # xs) = (if P x then Some x else find_first P xs)"

text \<open>The test \<open>filename.toLowerCase().includes(fileID.toLowerCase())\<close> used by the
  resolver and by \<open>isPluginLoaded\<close> and \<open>isPluginStarted\<close>.\<close>

definition matchesID :: "string \<Rightarrow> string \<Rightarrow> bool" where
  "matchesID fileID filename = str_includes (toLowerCase filename) (toLowerCase fileID)"

text \<open>
  The filter of \<open>listPlugins\<close>: the file matches \<open>/(.*)\.(?:ts|js)$/i\<close> and the first
  group, in lower case, ends with the file extension. The dot of the pattern does not
  match a line break, so the group is the run without line breaks just before the suffix.
\<close>

definition isLineBreak :: "char \<Rightarrow> bool" where
  "isLineBreak c = (c = CHR 0x0A \<or> c = CHR 0x0D)"

definition sourceSuffix :: "string \<Rightarrow> bool" where
  "sourceSuffix file =
     (let suf = toLowerCase (drop (length file - 3) file)
      in 3 \<le> length file \<and> (suf = ''.ts'' \<or> suf = ''.js''))"

definition matchedGroup :: "string \<Rightarrow> string" where
  "matchedGroup file = rev (takeWhile (\<lambda>c. \<not> isLineBreak c) (rev (take (length file - 3) file)))"

definition isPluginFile :: "string \<Rightarrow> string \<Rightarrow> bool" where
  "isPluginFile fileExt file =
     (if \<not> sourceSuffix file then False
      else endsWith (toLowerCase (matchedGroup file)) (toLowerCase fileExt))"

section \<open>Plugins, errors and the environment\<close>

datatype pstate = Started | Loaded

text \<open>A value of \<open>pluginDependencies\<close>: the string \<open>"started"\<close> or \<open>"loaded"\<close>, or a
  \<open>PluginDependency\<close> object whose three fields are all optional.\<close>

datatype depdecl =
    DepState pstate
  | DepObject (dep_state: "pstate option") (dep_optional: "bool option") (dep_version: "string option")

record MetaInformation =
  name :: string
  version :: string
  apiVersion :: string
  pluginDependencies :: "(string \<times> depdecl) list"
  stayLoadedOnDependencyLoss :: bool

text \<open>A lifecycle hook is a black box that returns or throws; it does not call back into
  the loader. \<open>None\<close> is a plugin without the hook.\<close>

datatype hook = Returns | Throws

record Plugin =
  meta :: MetaInformation
  load :: "hook option"
  start :: "hook option"
  stop :: "hook option"
  unload :: "hook option"

datatype error =
    InvalidPluginError
  | PluginAlreadyLoadedError string
  | PluginAlreadyStartedError string
  | PluginStillStartedError string
  | PluginNotLoadedError string
  | PluginNotStartedError string
  | ApiVersionMismatchError string
  | MissingDependencyError string string
  | FileNotFoundError string
  | SyntaxError
  | TypeError
  | HookError

text \<open>What \<open>import(path)\<close> gives: a module whose default export is a plugin with a
  \<open>__meta\<close> block, a module with no default export (the code continues with \<open>null\<close>),
  a default export without \<open>__meta\<close>, a syntax error, or any other failure.\<close>

datatype imported = Module Plugin | NoDefault | NoMeta | ImportSyntaxError | ImportFails

text \<open>
  The environment of a call: the directory listings (\<open>fs.readdir\<close>), the modules on disk
  (by directory and file name) and \<open>semver.satisfies\<close>, which is not code of this
  repository and is a parameter. The environment may differ from one call to the next.
\<close>

record env =
  readdir :: "string \<Rightarrow> string list"
  importModule :: "string \<Rightarrow> string \<Rightarrow> imported"
  satisfies :: "string \<Rightarrow> string \<Rightarrow> bool"

section \<open>The loader's state\<close>

text \<open>The value stored in the dependency tree for a dependant:
  \<open>state.state || state || "started"\<close>, which is the declared string, the \<open>state\<close> field
  of the object, or the object itself when it has no \<open>state\<close> field.\<close>

datatype treeval = TState pstate | TObject

text \<open>
  A queue entry holds the identifier the load was called with and its callback. The
  callback resolves the promise the suspended \<open>loadPlugin\<close> call awaits: the entry keeps
  what that call continues with (its resolved file name and target state) and whether the
  promise is still pending, since resolving a promise twice does nothing.
\<close>

record QueueEntry =
  plugin :: string
  resumes :: string
  resumeTarget :: "pstate option"
  pending :: bool

text \<open>Work that the code defers: the four \<open>setTimeout\<close> callbacks that emit a lifecycle
  event (the one of \<open>loadPlugin\<close> also starts the plugin when the target state is
  \<open>started\<close>), the continuation of a \<open>loadPlugin\<close> call whose promise was resolved, and
  a \<open>loadPlugin\<close> call that the cascade handler makes without \<open>await\<close>: the handler goes
  on with its own work, and the call, which looks into the resolver cache and stops at
  its first \<open>await\<close>, does the rest later.\<close>

datatype task =
    EmitLoaded string "pstate option"
  | EmitStarted string
  | EmitStopped string
  | EmitUnloaded string
  | ResumeLoad string "pstate option"
  | SubmittedLoad string "pstate option"

record LoaderState =
  pluginDir :: string
  loaderApiVersion :: string
  fileExtension :: string
  dependencyTree :: "(string \<times> (string \<times> treeval) list) list"
  resolverTable :: "string \<rightharpoonup> string"
  loadedPlugins :: "(string \<times> Plugin) list"
  startedPlugins :: "(string \<times> Plugin) list"
  loadingQueue :: "QueueEntry list"
  tasks :: "task list"

datatype PluginLoader3 = PluginLoader3 (this: LoaderState) (parent: "PluginLoader3 option")

definition updThis :: "(LoaderState \<Rightarrow> LoaderState) \<Rightarrow> PluginLoader3 \<Rightarrow> PluginLoader3" where
  "updThis f l = PluginLoader3 (f (this l)) (parent l)"

definition setParent :: "PluginLoader3 \<Rightarrow> PluginLoader3 \<Rightarrow> PluginLoader3" where
  "setParent l p = PluginLoader3 (this l) (Some p)"

text \<open>The loader the constructor builds: nothing loaded, nothing cached. The file
  extension is \<open>(options.fileExtension || ".plugin").toLowerCase()\<close>.\<close>

definition newLoader :: "string \<Rightarrow> string \<Rightarrow> string \<Rightarrow> PluginLoader3 option \<Rightarrow> PluginLoader3" where
  "newLoader dir api ext par =
     PluginLoader3 \<lparr> pluginDir = dir, loaderApiVersion = api,
       fileExtension = toLowerCase (if ext = [] then ''.plugin'' else ext),
       dependencyTree = [], resolverTable = Map.empty, loadedPlugins = [], startedPlugins = [],
       loadingQueue = [], tasks = [] \<rparr> par"

section \<open>Lookups\<close>

text \<open>
  \<open>listPlugins\<close>, \<open>getLoadedPlugins\<close> and \<open>getStartedPlugins\<close> call the parent when
  there is one and \<open>includeParent\<close> is set, and pass the answer to \<open>Array.prototype.concat\<close>,
  which builds a new array and leaves \<open>plugins\<close> as it was. The code drops that new
  array; the binding \<open>concatenated\<close> below is that dropped value.
\<close>

fun listPlugins :: "env \<Rightarrow> PluginLoader3 \<Rightarrow> bool \<Rightarrow> string list" where
  "listPlugins E (PluginLoader3 s par) includeParent =
     (let files = readdir E (pluginDir s);
          pluginFiles = filter (isPluginFile (fileExtension s)) files;
          concatenated =
            (case par of
               Some p \<Rightarrow> if includeParent then pluginFiles @ listPlugins E p True else pluginFiles
             | None \<Rightarrow> pluginFiles)
      in pluginFiles)"

fun getLoadedPlugins :: "PluginLoader3 \<Rightarrow> bool \<Rightarrow> string list" where
  "getLoadedPlugins (PluginLoader3 s par) includeParent =
     (let plugins = map fst (loadedPlugins s);
          concatenated =
            (case par of
               Some p \<Rightarrow> if includeParent then plugins @ getLoadedPlugins p includeParent else plugins
             | None \<Rightarrow> plugins)
      in plugins)"

fun getStartedPlugins :: "PluginLoader3 \<Rightarrow> bool \<Rightarrow> string list" where
  "getStartedPlugins (PluginLoader3 s par) includeParent =
     (let plugins = map fst (startedPlugins s);
          concatenated =
            (case par of
               Some p \<Rightarrow> if includeParent then plugins @ getStartedPlugins p includeParent else plugins
             | None \<Rightarrow> plugins)
      in plugins)"

text \<open>\<open>!!xs.find(...)\<close>: a match was found and it is not the empty string.\<close>

definition isPluginLoaded :: "PluginLoader3 \<Rightarrow> string \<Rightarrow> bool \<Rightarrow> bool" where
  "isPluginLoaded l fileID includeParent =
     (case find_first (matchesID fileID) (getLoadedPlugins l includeParent) of
        Some pluginName \<Rightarrow> pluginName \<noteq> []
      | None \<Rightarrow> False)"

definition isPluginStarted :: "PluginLoader3 \<Rightarrow> string \<Rightarrow> bool \<Rightarrow> bool" where
  "isPluginStarted l fileID includeParent =
     (case find_first (matchesID fileID) (getStartedPlugins l includeParent) of
        Some pluginName \<Rightarrow> pluginName \<noteq> []
      | None \<Rightarrow> False)"

section \<open>The resolver\<close>

text \<open>
  \<open>resolvePluginFilename\<close> has two halves, before and after \<open>await this.listPlugins(false)\<close>.
  The first half looks into the cache: a cached name is returned when it is truthy
  (present and not empty). For an empty \<open>fileID\<close> the code then builds an
  \<open>InvalidPluginError\<close> and does not throw it, so the line has no effect and the call goes
  on to list the directory. The cache of the code is a plain object: the name of a
  property that every object inherits (\<open>constructor\<close>, \<open>toString\<close>, \<open>__proto__\<close>, ...)
  is found there without having been cached, and what the call returns then is not a
  file name. The model is about the other identifiers.
\<close>

definition cacheHit :: "PluginLoader3 \<Rightarrow> string \<Rightarrow> string option" where
  "cacheHit l fileID =
     (case resolverTable (this l) fileID of
        Some cached \<Rightarrow> if cached \<noteq> [] then Some cached else None
      | None \<Rightarrow> None)"

text \<open>
  The second half runs when the listing has arrived, in the loader as it is by then: the
  first listed plugin file that matches is written to the cache, without a second look
  at the cache, and returned. \<open>E\<close> is the environment in which the directory was read.
\<close>

definition resolveListed ::
    "env \<Rightarrow> PluginLoader3 \<Rightarrow> string \<Rightarrow> (error + string) \<times> PluginLoader3" where
  "resolveListed E l fileID =
     (let pluginFiles = listPlugins E l False
      in case find_first (matchesID fileID) pluginFiles of
           None \<Rightarrow> (Inl (FileNotFoundError fileID), l)
         | Some resolvedFilename \<Rightarrow>
             if resolvedFilename = [] then (Inl (FileNotFoundError fileID), l)
             else (Inr resolvedFilename,
                   updThis (\<lambda>s. s\<lparr>resolverTable := (resolverTable s)(fileID \<mapsto> resolvedFilename)\<rparr>) l))"

text \<open>A call that nothing else interleaves with: both halves in the same loader.\<close>

definition resolvePluginFilename ::
    "env \<Rightarrow> PluginLoader3 \<Rightarrow> string \<Rightarrow> (error + string) \<times> PluginLoader3" where
  "resolvePluginFilename E l fileID =
     (case cacheHit l fileID of
        Some cached \<Rightarrow> (Inr cached, l)
      | None \<Rightarrow> resolveListed E l fileID)"

section \<open>Getting a plugin\<close>

text \<open>The \<open>decache\<close> and \<open>import\<close> of \<open>getPlugin\<close>, from the loader's own directory.
  A default export without \<open>__meta\<close> and every failure but a syntax error end as
  \<open>InvalidPluginError\<close>; a module without default export gives \<open>null\<close> (\<open>None\<close>).\<close>

definition importPlugin ::
    "env \<Rightarrow> PluginLoader3 \<Rightarrow> string \<Rightarrow> (error + Plugin option) \<times> PluginLoader3" where
  "importPlugin E l resolvedFilename =
     (case importModule E (pluginDir (this l)) resolvedFilename of
        Module p \<Rightarrow> (Inr (Some p), l)
      | NoDefault \<Rightarrow> (Inr None, l)
      | NoMeta \<Rightarrow> (Inl InvalidPluginError, l)
      | ImportSyntaxError \<Rightarrow> (Inl SyntaxError, l)
      | ImportFails \<Rightarrow> (Inl InvalidPluginError, l))"

fun getPlugin ::
    "env \<Rightarrow> PluginLoader3 \<Rightarrow> string \<Rightarrow> bool \<Rightarrow> (error + Plugin option) \<times> PluginLoader3" where
  "getPlugin E (PluginLoader3 s par) fileID includeParent =
     (case resolvePluginFilename E (PluginLoader3 s par) fileID of
        (Inl e, l1) \<Rightarrow> (Inl e, l1)
      | (Inr resolvedFilename, l1) \<Rightarrow>
          (case map_of (loadedPlugins (this l1)) resolvedFilename of
             Some p \<Rightarrow> (Inr (Some p), l1)
           | None \<Rightarrow>
               (case par of
                  None \<Rightarrow> importPlugin E l1 resolvedFilename
                | Some p \<Rightarrow>
                    if includeParent then
                      (case getPlugin E p resolvedFilename includeParent of
                         (Inl e, p') \<Rightarrow> (Inl e, setParent l1 p')
                       | (Inr (Some plg), p') \<Rightarrow> (Inr (Some plg), setParent l1 p')
                       | (Inr None, p') \<Rightarrow> importPlugin E (setParent l1 p') resolvedFilename)
                    else importPlugin E l1 resolvedFilename)))"

text \<open>\<open>plugin.__meta\<close> of a \<open>null\<close> plugin is a \<open>TypeError\<close>.\<close>

definition getPluginInfo ::
    "env \<Rightarrow> PluginLoader3 \<Rightarrow> string \<Rightarrow> bool \<Rightarrow> (error + MetaInformation) \<times> PluginLoader3" where
  "getPluginInfo E l fileID includeParent =
     (case getPlugin E l fileID includeParent of
        (Inl e, l1) \<Rightarrow> (Inl e, l1)
      | (Inr None, l1) \<Rightarrow> (Inl TypeError, l1)
      | (Inr (Some plg), l1) \<Rightarrow> (Inr (meta plg), l1))"

section \<open>Dependency satisfaction\<close>

text \<open>The three fields \<open>allDependenciesSatisfied\<close> reads off a declaration:
  \<open>state\<close> is \<open>dep.state || dep\<close> and is compared with \<open>"started"\<close>; \<open>optional\<close> is
  \<open>dep.optional || false\<close>; \<open>version\<close> is \<open>dep.version || "*"\<close>.\<close>

definition requiresStarted :: "depdecl \<Rightarrow> bool" where
  "requiresStarted dep =
     (case dep of DepState st \<Rightarrow> st = Started | DepObject st opt ver \<Rightarrow> st = Some Started)"

definition isOptional :: "depdecl \<Rightarrow> bool" where
  "isOptional dep = (case dep of DepState st \<Rightarrow> False | DepObject st opt ver \<Rightarrow> opt = Some True)"

definition versionRange :: "depdecl \<Rightarrow> string" where
  "versionRange dep =
     (case dep of
        DepState st \<Rightarrow> ''*''
      | DepObject st opt ver \<Rightarrow> (case ver of Some r \<Rightarrow> if r = [] then ''*'' else r | None \<Rightarrow> ''*''))"

text \<open>
  The loop over \<open>pluginDependencies\<close>. An error of \<open>getPluginInfo\<close> and the
  \<open>MissingDependencyError\<close> of the version test are both thrown inside the \<open>try\<close>: the
  \<open>catch\<close> skips an optional dependency and rethrows otherwise. A dependency that is not
  in its required state ends the check with \<open>false\<close>.
\<close>

fun checkDependencies ::
    "env \<Rightarrow> PluginLoader3 \<Rightarrow> string \<Rightarrow> (string \<times> depdecl) list \<Rightarrow> (error + bool) \<times> PluginLoader3" where
  "checkDependencies E l fileID [] = (Inr True, l)"
| "checkDependencies E l fileID ((dependencyName, dep) # deps) =
     (case getPluginInfo E l dependencyName True of
        (Inl e, l1) \<Rightarrow>
          if isOptional dep then checkDependencies E l1 fileID deps else (Inl e, l1)
      | (Inr depInfo, l1) \<Rightarrow>
          if \<not> satisfies E (version depInfo) (versionRange dep) then
            (if isOptional dep then checkDependencies E l1 fileID deps
             else (Inl (MissingDependencyError fileID dependencyName), l1))
          else if requiresStarted dep then
            (if \<not> isPluginStarted l1 dependencyName True then (Inr False, l1)
             else checkDependencies E l1 fileID deps)
          else
            (if \<not> isPluginLoaded l1 dependencyName True then (Inr False, l1)
             else checkDependencies E l1 fileID deps))"

definition allDependenciesSatisfied ::
    "env \<Rightarrow> PluginLoader3 \<Rightarrow> string \<Rightarrow> (error + bool) \<times> PluginLoader3" where
  "allDependenciesSatisfied E l fileID =
     (case getPluginInfo E l fileID True of
        (Inl e, l1) \<Rightarrow> (Inl e, l1)
      | (Inr pluginInfo, l1) \<Rightarrow>
          if \<not> satisfies E (loaderApiVersion (this l1)) (apiVersion pluginInfo)
          then (Inl (ApiVersionMismatchError fileID), l1)
          else checkDependencies E l1 fileID (pluginDependencies pluginInfo))"

section \<open>The lifecycle operations\<close>

text \<open>
  The methods are asynchronous and the program runs on one thread. A call is modelled as
  one step from loader to loader, with the result or the error it ends with. Of the
  places where other work can run in the middle of a call, the model has the wait of the
  resolver for its directory listing (see the section on resolutions that overlap), the
  suspension of a load on its dependencies, and the work that the code puts off; the
  other \<open>await\<close>s of a call are taken in one piece. What the code puts off is kept in
  the loader: the callbacks given to \<open>setTimeout\<close>, the continuations of suspended loads
  and the loads that the cascade handler submits without \<open>await\<close> are the \<open>tasks\<close>, run
  later one at a time. A load that awaits its dependencies ends its step with
  \<open>LoadSuspended\<close>.
\<close>

definition storedState :: "depdecl \<Rightarrow> treeval" where
  "storedState dep =
     (case dep of
        DepState st \<Rightarrow> TState st
      | DepObject st opt ver \<Rightarrow> (case st of Some st' \<Rightarrow> TState st' | None \<Rightarrow> TObject))"

text \<open>The edges of a loaded plugin: for each declared dependency, under the name as it
  is declared, the entry \<open>resolved \<mapsto> state\<close>.\<close>

fun registerDependencies ::
    "string \<Rightarrow> (string \<times> depdecl) list \<Rightarrow> (string \<times> (string \<times> treeval) list) list
      \<Rightarrow> (string \<times> (string \<times> treeval) list) list" where
  "registerDependencies resolved [] tree = tree"
| "registerDependencies resolved ((dependency, dep) # deps) tree =
     registerDependencies resolved deps
       (AList.update dependency
          (AList.update resolved (storedState dep)
             (case map_of tree dependency of Some dependants \<Rightarrow> dependants | None \<Rightarrow> []))
          tree)"

definition schedule :: "task \<Rightarrow> PluginLoader3 \<Rightarrow> PluginLoader3" where
  "schedule t l = updThis (\<lambda>s. s\<lparr>tasks := tasks s @ [t]\<rparr>) l"

datatype load_result = LoadCompleted | LoadSuspended

text \<open>
  The part of \<open>loadPlugin\<close> after the dependency check (and after \<open>await prom\<close> for a
  suspended call). The provisioning of third-party dependencies catches its own errors
  and the plugin's store is taken to open; neither touches the loader's state.
\<close>

definition finishLoad ::
    "env \<Rightarrow> PluginLoader3 \<Rightarrow> string \<Rightarrow> pstate option \<Rightarrow> (error + load_result) \<times> PluginLoader3" where
  "finishLoad E l resolved targetState =
     (case getPlugin E l resolved False of
        (Inl e, l1) \<Rightarrow> (Inl e, l1)
      | (Inr None, l1) \<Rightarrow> (Inl TypeError, l1)
      | (Inr (Some plg), l1) \<Rightarrow>
          (let pluginInfo = meta plg;
               l2 = updThis (\<lambda>s. s\<lparr>dependencyTree :=
                      registerDependencies resolved (pluginDependencies pluginInfo) (dependencyTree s)\<rparr>) l1
           in if load plg = Some Throws then (Inl HookError, l2)
              else (Inr LoadCompleted,
                    schedule (EmitLoaded resolved targetState)
                      (updThis (\<lambda>s. s\<lparr>loadedPlugins := AList.update resolved plg (loadedPlugins s)\<rparr>) l2))))"

definition loadPlugin ::
    "env \<Rightarrow> PluginLoader3 \<Rightarrow> string \<Rightarrow> pstate option \<Rightarrow> (error + load_result) \<times> PluginLoader3" where
  "loadPlugin E l fileID targetState =
     (case resolvePluginFilename E l fileID of
        (Inl e, l1) \<Rightarrow> (Inl e, l1)
      | (Inr resolved, l1) \<Rightarrow>
          if isPluginLoaded l1 resolved True then (Inl (PluginAlreadyLoadedError resolved), l1)
          else
            (case allDependenciesSatisfied E l1 resolved of
               (Inl e, l2) \<Rightarrow> (Inl e, l2)
             | (Inr True, l2) \<Rightarrow> finishLoad E l2 resolved targetState
             | (Inr False, l2) \<Rightarrow>
                 (Inr LoadSuspended,
                  updThis (\<lambda>s. s\<lparr>loadingQueue := loadingQueue s @
                     [\<lparr>plugin = fileID, resumes = resolved, resumeTarget = targetState,
                       pending = True\<rparr>]\<rparr>) l2)))"

definition unloadPlugin :: "env \<Rightarrow> PluginLoader3 \<Rightarrow> string \<Rightarrow> (error + unit) \<times> PluginLoader3" where
  "unloadPlugin E l fileID =
     (case resolvePluginFilename E l fileID of
        (Inl e, l1) \<Rightarrow> (Inl e, l1)
      | (Inr resolved, l1) \<Rightarrow>
          if \<not> isPluginLoaded l1 resolved False then (Inl (PluginNotLoadedError resolved), l1)
          else if isPluginStarted l1 resolved False then (Inl (PluginStillStartedError resolved), l1)
          else
            (case getPlugin E l1 resolved False of
               (Inl e, l2) \<Rightarrow> (Inl e, l2)
             | (Inr None, l2) \<Rightarrow> (Inl TypeError, l2)
             | (Inr (Some plg), l2) \<Rightarrow>
                 if unload plg = Some Throws then (Inl HookError, l2)
                 else (Inr (),
                       schedule (EmitUnloaded resolved)
                         (updThis (\<lambda>s. s\<lparr>loadedPlugins := AList.delete resolved (loadedPlugins s)\<rparr>) l2))))"

definition startPlugin :: "env \<Rightarrow> PluginLoader3 \<Rightarrow> string \<Rightarrow> (error + unit) \<times> PluginLoader3" where
  "startPlugin E l fileID =
     (case resolvePluginFilename E l fileID of
        (Inl e, l1) \<Rightarrow> (Inl e, l1)
      | (Inr resolved, l1) \<Rightarrow>
          if \<not> isPluginLoaded l1 resolved False then (Inl (PluginNotLoadedError resolved), l1)
          else if isPluginStarted l1 resolved False then (Inl (PluginAlreadyStartedError resolved), l1)
          else
            (case getPlugin E l1 resolved False of
               (Inl e, l2) \<Rightarrow> (Inl e, l2)
             | (Inr None, l2) \<Rightarrow> (Inl TypeError, l2)
             | (Inr (Some plg), l2) \<Rightarrow>
                 if start plg = Some Throws then (Inl HookError, l2)
                 else (Inr (),
                       schedule (EmitStarted resolved)
                         (updThis (\<lambda>s. s\<lparr>startedPlugins := AList.update resolved plg (startedPlugins s)\<rparr>) l2))))"

definition stopPlugin :: "env \<Rightarrow> PluginLoader3 \<Rightarrow> string \<Rightarrow> (error + unit) \<times> PluginLoader3" where
  "stopPlugin E l fileID =
     (case resolvePluginFilename E l fileID of
        (Inl e, l1) \<Rightarrow> (Inl e, l1)
      | (Inr resolved, l1) \<Rightarrow>
          if \<not> isPluginLoaded l1 resolved False then (Inl (PluginNotLoadedError resolved), l1)
          else if \<not> isPluginStarted l1 resolved False then (Inl (PluginNotStartedError resolved), l1)
          else
            (case getPlugin E l1 resolved False of
               (Inl e, l2) \<Rightarrow> (Inl e, l2)
             | (Inr None, l2) \<Rightarrow> (Inl TypeError, l2)
             | (Inr (Some plg), l2) \<Rightarrow>
                 if stop plg = Some Throws then (Inl HookError, l2)
                 else (Inr (),
                       schedule (EmitStopped resolved)
                         (updThis (\<lambda>s. s\<lparr>startedPlugins := AList.delete resolved (startedPlugins s)\<rparr>) l2))))"

section \<open>The listeners\<close>

text \<open>
  \<open>loadedListener\<close> and \<open>startedListener\<close> are one function: for every entry of the
  loading queue, \<open>allDependenciesSatisfied(queueEntry.plugin)\<close> is evaluated and, when it
  gives \<open>true\<close>, the entry's callback is called; an error is logged and dropped. Calling
  the callback resolves the promise of the suspended call, whose continuation then runs
  as a task of its own; on a promise that is no longer pending it does nothing. The
  checks run one after the other, in queue order. No line of the code takes an entry out
  of the queue.
\<close>

definition callback :: "QueueEntry \<Rightarrow> PluginLoader3 \<Rightarrow> PluginLoader3" where
  "callback queueEntry l =
     (if pending queueEntry
      then schedule (ResumeLoad (resumes queueEntry) (resumeTarget queueEntry)) l
      else l)"

fun reevaluate ::
    "env \<Rightarrow> QueueEntry list \<Rightarrow> PluginLoader3 \<Rightarrow> QueueEntry list \<times> PluginLoader3" where
  "reevaluate E [] l = ([], l)"
| "reevaluate E (queueEntry # entries) l =
     (case allDependenciesSatisfied E l (plugin queueEntry) of
        (Inr True, l1) \<Rightarrow>
          (case reevaluate E entries (callback queueEntry l1) of
             (entries', l2) \<Rightarrow> (queueEntry\<lparr>pending := False\<rparr> # entries', l2))
      | (Inr False, l1) \<Rightarrow>
          (case reevaluate E entries l1 of (entries', l2) \<Rightarrow> (queueEntry # entries', l2))
      | (Inl e, l1) \<Rightarrow>
          (case reevaluate E entries l1 of (entries', l2) \<Rightarrow> (queueEntry # entries', l2)))"

definition loadedListener :: "env \<Rightarrow> PluginLoader3 \<Rightarrow> PluginLoader3" where
  "loadedListener E l =
     (case reevaluate E (loadingQueue (this l)) l of
        (entries, l1) \<Rightarrow> updThis (\<lambda>s. s\<lparr>loadingQueue := entries\<rparr>) l1)"

definition startedListener :: "env \<Rightarrow> PluginLoader3 \<Rightarrow> PluginLoader3" where
  "startedListener = loadedListener"

text \<open>
  \<open>stoppedListener\<close> and \<open>unloadedListener\<close> are one function as well. The callback of
  the \<open>map\<close> over \<open>Object.entries(depTree[filename])\<close> is \<open>cascadeDependant\<close>; it does not
  await the \<open>loadPlugin\<close> it submits: that call is deferred work, its outcome is dropped,
  and the handler's last line (\<open>delete depTree[filename]\<close>) runs before it. The
  callbacks run one after the other in the order of the entries. One that throws does
  not stop the others, but \<open>Promise.all\<close> rejects, and the line after it is not reached.
  With no entry for \<open>filename\<close>, \<open>Object.entries(undefined)\<close> throws a \<open>TypeError\<close>.
\<close>

definition cascadeDependant ::
    "env \<Rightarrow> bool \<Rightarrow> PluginLoader3 \<Rightarrow> string \<times> treeval \<Rightarrow> error option \<times> PluginLoader3" where
  "cascadeDependant E isUnloaded l entry =
     (case entry of (dependant, state) \<Rightarrow>
       (case getPluginInfo E l dependant False of
          (Inl e, l1) \<Rightarrow> (Some e, l1)
        | (Inr pInfo, l1) \<Rightarrow>
            if stayLoadedOnDependencyLoss pInfo then (None, l1)
            else
              (let wasLoaded = isPluginLoaded l1 dependant False;
                   wasStarted = isPluginStarted l1 dependant False
               in if state = TState Started \<or> (state = TState Loaded \<and> isUnloaded) then
                    (case (if wasStarted then stopPlugin E l1 dependant else (Inr (), l1)) of
                       (Inl e, l2) \<Rightarrow> (Some e, l2)
                     | (Inr u, l2) \<Rightarrow>
                         (case (if wasLoaded then unloadPlugin E l2 dependant else (Inr (), l2)) of
                            (Inl e, l3) \<Rightarrow> (Some e, l3)
                          | (Inr u', l3) \<Rightarrow>
                              (None, schedule (SubmittedLoad dependant
                                                 (Some (if wasStarted then Started else Loaded))) l3)))
                  else (None, l1))))"

fun cascadeAll ::
    "env \<Rightarrow> bool \<Rightarrow> PluginLoader3 \<Rightarrow> (string \<times> treeval) list \<Rightarrow> error option list \<times> PluginLoader3" where
  "cascadeAll E isUnloaded l [] = ([], l)"
| "cascadeAll E isUnloaded l (entry # entries) =
     (case cascadeDependant E isUnloaded l entry of
        (r, l1) \<Rightarrow> (case cascadeAll E isUnloaded l1 entries of (rs, l2) \<Rightarrow> (r # rs, l2)))"

fun firstError :: "error option list \<Rightarrow> error option" where
  "firstError [] = None"
| "firstError (None # rs) = firstError rs"
| "firstError (Some e # rs) = Some e"

definition stoppedListener ::
    "env \<Rightarrow> PluginLoader3 \<Rightarrow> string \<Rightarrow> (error + unit) \<times> PluginLoader3" where
  "stoppedListener E l filename =
     (let isUnloaded = \<not> isPluginLoaded l filename True
      in case map_of (dependencyTree (this l)) filename of
           None \<Rightarrow> (Inl TypeError, l)
         | Some dependants \<Rightarrow>
             (case cascadeAll E isUnloaded l dependants of
                (rs, l1) \<Rightarrow>
                  (case firstError rs of
                     Some e \<Rightarrow> (Inl e, l1)
                   | None \<Rightarrow>
                       (Inr (),
                        if isUnloaded
                        then updThis (\<lambda>s. s\<lparr>dependencyTree := AList.delete filename (dependencyTree s)\<rparr>) l1
                        else l1))))"

definition unloadedListener ::
    "env \<Rightarrow> PluginLoader3 \<Rightarrow> string \<Rightarrow> (error + unit) \<times> PluginLoader3" where
  "unloadedListener = stoppedListener"

section \<open>Events and deferred work\<close>

datatype event = PluginLoaded string | PluginStarted string | PluginStopped string | PluginUnloaded string

text \<open>\<open>emit\<close> runs the loader's own listener for the event; what an asynchronous
  listener throws is an unhandled rejection and is dropped. An event forwarded from the
  parent is such an \<open>emit\<close> too: the listeners do not read the event's data.\<close>

definition emit :: "env \<Rightarrow> PluginLoader3 \<Rightarrow> event \<Rightarrow> PluginLoader3" where
  "emit E l ev =
     (case ev of
        PluginLoaded filename \<Rightarrow> loadedListener E l
      | PluginStarted filename \<Rightarrow> startedListener E l
      | PluginStopped filename \<Rightarrow> snd (stoppedListener E l filename)
      | PluginUnloaded filename \<Rightarrow> snd (unloadedListener E l filename))"

definition runTask :: "env \<Rightarrow> PluginLoader3 \<Rightarrow> task \<Rightarrow> PluginLoader3" where
  "runTask E l t =
     (case t of
        EmitLoaded resolved targetState \<Rightarrow>
          (let l1 = emit E l (PluginLoaded resolved)
           in if targetState = Some Started then snd (startPlugin E l1 resolved) else l1)
      | EmitStarted resolved \<Rightarrow> emit E l (PluginStarted resolved)
      | EmitStopped resolved \<Rightarrow> emit E l (PluginStopped resolved)
      | EmitUnloaded resolved \<Rightarrow> emit E l (PluginUnloaded resolved)
      | ResumeLoad resolved targetState \<Rightarrow> snd (finishLoad E l resolved targetState)
      | SubmittedLoad fileID targetState \<Rightarrow> snd (loadPlugin E l fileID targetState))"

text \<open>The event loop takes the oldest deferred piece of work and runs it.\<close>

definition nextTask :: "env \<Rightarrow> PluginLoader3 \<Rightarrow> PluginLoader3" where
  "nextTask E l =
     (case tasks (this l) of
        [] \<Rightarrow> l
      | t # ts \<Rightarrow> runTask E (updThis (\<lambda>s. s\<lparr>tasks := ts\<rparr>) l) t)"

section \<open>The management surface handed to plugins\<close>

text \<open>The four lifecycle entries of the \<open>PM2API\<close> object, as the constructor writes
  them.\<close>

definition PM2API_load ::
    "env \<Rightarrow> PluginLoader3 \<Rightarrow> string \<Rightarrow> (error + load_result) \<times> PluginLoader3" where
  "PM2API_load E l fileID = loadPlugin E l fileID None"

definition PM2API_unload :: "env \<Rightarrow> PluginLoader3 \<Rightarrow> string \<Rightarrow> (error + unit) \<times> PluginLoader3" where
  "PM2API_unload E l fileID = unloadPlugin E l fileID"

definition PM2API_start :: "env \<Rightarrow> PluginLoader3 \<Rightarrow> string \<Rightarrow> (error + unit) \<times> PluginLoader3" where
  "PM2API_start E l fileID = startPlugin E l fileID"

definition PM2API_stop ::
    "env \<Rightarrow> PluginLoader3 \<Rightarrow> string \<Rightarrow> (error + load_result) \<times> PluginLoader3" where
  "PM2API_stop E l fileID = loadPlugin E l fileID None"

section \<open>Sequences of calls\<close>

text \<open>Anything that may happen to a loader between two calls: a call of one of its
  methods, an event delivered to it, or a deferred piece of work that runs. Each comes
  with the environment it runs in.\<close>

datatype call =
    Resolve string
  | GetPlugin string bool
  | LoadPlugin string "pstate option"
  | UnloadPlugin string
  | StartPlugin string
  | StopPlugin string
  | Emit event
  | NextTask

definition perform :: "env \<Rightarrow> call \<Rightarrow> PluginLoader3 \<Rightarrow> PluginLoader3" where
  "perform E c l =
     (case c of
        Resolve fileID \<Rightarrow> snd (resolvePluginFilename E l fileID)
      | GetPlugin fileID includeParent \<Rightarrow> snd (getPlugin E l fileID includeParent)
      | LoadPlugin fileID targetState \<Rightarrow> snd (loadPlugin E l fileID targetState)
      | UnloadPlugin fileID \<Rightarrow> snd (unloadPlugin E l fileID)
      | StartPlugin fileID \<Rightarrow> snd (startPlugin E l fileID)
      | StopPlugin fileID \<Rightarrow> snd (stopPlugin E l fileID)
      | Emit ev \<Rightarrow> emit E l ev
      | NextTask \<Rightarrow> nextTask E l)"

fun performAll :: "(env \<times> call) list \<Rightarrow> PluginLoader3 \<Rightarrow> PluginLoader3" where
  "performAll [] l = l"
| "performAll ((E, c) # cs) l = performAll cs (perform E c l)"

section \<open>Resolutions that overlap\<close>

text \<open>
  \<open>getPlugin\<close> and the four lifecycle methods begin with
  \<open>await this.resolvePluginFilename(...)\<close>, and a call of the resolver that misses the
  cache stops at \<open>await this.listPlugins(false)\<close>: other work
  runs before the listing arrives, among it other calls of the resolver, by whichever
  method. The identifiers of the calls that wait for their listing are kept beside the
  loader. A step is the first half of a resolution (\<open>Begin\<close>), the second half of one
  that waits (\<open>Listed\<close>, in the environment in which its directory was read), or a
  call, event or deferred piece of work of the previous section (\<open>Whole\<close>), whose own
  resolutions nothing interleaves with. A method call whose first resolution is
  overlapped by other work is the two halves of that resolution followed by the call as
  a whole, which then finds the name in the cache. A step gives what the resolver
  returns to its caller at that step, when it returns there.
\<close>

record Running =
  loader :: PluginLoader3
  listing :: "string list"

datatype step = Begin string | Listed string | Whole call

definition run :: "env \<Rightarrow> step \<Rightarrow> Running \<Rightarrow> (error + string) option \<times> Running" where
  "run E st r =
     (case st of
        Begin fileID \<Rightarrow>
          (case cacheHit (loader r) fileID of
             Some cached \<Rightarrow> (Some (Inr cached), r)
           | None \<Rightarrow> (None, r\<lparr>listing := listing r @ [fileID]\<rparr>))
      | Listed fileID \<Rightarrow>
          if fileID \<in> set (listing r)
          then (case resolveListed E (loader r) fileID of
                  (res, l1) \<Rightarrow> (Some res, \<lparr>loader = l1, listing = remove1 fileID (listing r)\<rparr>))
          else (None, r)
      | Whole c \<Rightarrow>
          ((case c of
              Resolve fileID \<Rightarrow> Some (fst (resolvePluginFilename E (loader r) fileID))
            | _ \<Rightarrow> None),
           r\<lparr>loader := perform E c (loader r)\<rparr>))"

fun runAll :: "(env \<times> step) list \<Rightarrow> Running \<Rightarrow> Running" where
  "runAll [] r = r"
| "runAll ((E, st) # sts) r = runAll sts (snd (run E st r))"

section \<open>Notions used in the statements\<close>

text \<open>A loader's state without its resolver cache; a name cached for an identifier (the
  cache hit of \<open>resolvePluginFilename\<close>: present and not empty); a later loader that still
  has every cached name of an earlier one; and a later loader that differs from an earlier
  one by more cached names only.\<close>

definition withoutCache :: "LoaderState \<Rightarrow> LoaderState" where
  "withoutCache s = s\<lparr>resolverTable := Map.empty\<rparr>"

definition cachedAs :: "PluginLoader3 \<Rightarrow> string \<Rightarrow> string \<Rightarrow> bool" where
  "cachedAs l fileID f = (resolverTable (this l) fileID = Some f \<and> f \<noteq> [])"

definition cacheKept :: "PluginLoader3 \<Rightarrow> PluginLoader3 \<Rightarrow> bool" where
  "cacheKept l l' = (\<forall>k f. cachedAs l k f \<longrightarrow> cachedAs l' k f)"

definition cacheGrows :: "PluginLoader3 \<Rightarrow> PluginLoader3 \<Rightarrow> bool" where
  "cacheGrows l l' = (withoutCache (this l') = withoutCache (this l) \<and> cacheKept l l')"

text \<open>What the lookups read of a loader's state besides the cache, and two loaders that
  answer every lookup alike in environment \<open>E\<close>: they agree on what the lookups read and
  on the result of resolving every identifier, and so do their parents.\<close>

definition reads :: "LoaderState \<Rightarrow> string \<times> string \<times> string \<times> (string \<times> Plugin) list \<times> (string \<times> Plugin) list" where
  "reads s = (pluginDir s, fileExtension s, loaderApiVersion s, loadedPlugins s, startedPlugins s)"

fun sameScope :: "env \<Rightarrow> PluginLoader3 \<Rightarrow> PluginLoader3 \<Rightarrow> bool" where
  "sameScope E (PluginLoader3 s par) l' =
     (reads (this l') = reads s \<and>
      (\<forall>k. fst (resolvePluginFilename E l' k) = fst (resolvePluginFilename E (PluginLoader3 s par) k)) \<and>
      (case par of
         None \<Rightarrow> parent l' = None
       | Some p \<Rightarrow> (case parent l' of None \<Rightarrow> False | Some p' \<Rightarrow> sameScope E p p')))"

text \<open>\<open>onlyMatch A names\<close>: no name other than \<open>A\<close> itself contains \<open>A\<close> (in the sense of
  \<open>matchesID\<close>), so that \<open>isPluginLoaded\<close> and \<open>isPluginStarted\<close> answer for \<open>A\<close> alone.
  \<open>requiredStateLost\<close> is the guard of the cascade handler:
  \<open>state === "started" || (state === "loaded" && isUnloaded)\<close>. \<open>tornDown A l\<close> is the
  loader \<open>l\<close> once \<open>A\<close> has been stopped if it was started and unloaded if it was loaded,
  with the events deferred. \<open>teardownHooksReturn A l\<close>: the hooks that this runs, the
  \<open>stop\<close> and \<open>unload\<close> hooks of the loaded instance of \<open>A\<close>, return.\<close>

definition onlyMatch :: "string \<Rightarrow> string list \<Rightarrow> bool" where
  "onlyMatch A names = list_all (\<lambda>n. \<not> matchesID A n \<or> n = A) names"

definition requiredStateLost :: "treeval \<Rightarrow> bool \<Rightarrow> bool" where
  "requiredStateLost st isUnloaded = (st = TState Started \<or> (st = TState Loaded \<and> isUnloaded))"

definition tornDown :: "string \<Rightarrow> PluginLoader3 \<Rightarrow> PluginLoader3" where
  "tornDown A l =
     updThis (\<lambda>s. s\<lparr>startedPlugins := AList.delete A (startedPlugins s),
                     loadedPlugins := AList.delete A (loadedPlugins s),
                     tasks := tasks s @
                       (if A \<in> set (map fst (startedPlugins s)) then [EmitStopped A] else []) @
                       (if A \<in> set (map fst (loadedPlugins s)) then [EmitUnloaded A] else [])\<rparr>) l"

definition teardownHooksReturn :: "string \<Rightarrow> PluginLoader3 \<Rightarrow> bool" where
  "teardownHooksReturn A l =
     (case map_of (loadedPlugins (this l)) A of
        None \<Rightarrow> True
      | Some plg \<Rightarrow>
          (A \<in> set (map fst (startedPlugins (this l))) \<longrightarrow> stop plg \<noteq> Some Throws) \<and>
          unload plg \<noteq> Some Throws)"

section \<open>Example installations\<close>

text \<open>Concrete plugins and disks on which the theorems below are exercised. The
  stand-in for \<open>semver.satisfies\<close> knows the three ranges the examples use.\<close>

definition exampleMeta ::
    "string \<Rightarrow> string \<Rightarrow> (string \<times> depdecl) list \<Rightarrow> bool \<Rightarrow> MetaInformation" where
  "exampleMeta n api deps stay =
     \<lparr>name = n, version = ''1.0.0'', apiVersion = api, pluginDependencies = deps,
      stayLoadedOnDependencyLoss = stay\<rparr>"

definition examplePlugin :: "MetaInformation \<Rightarrow> Plugin" where
  "examplePlugin m =
     \<lparr>meta = m, load = Some Returns, start = Some Returns, stop = Some Returns, unload = None\<rparr>"

definition exampleSatisfies :: "string \<Rightarrow> string \<Rightarrow> bool" where
  "exampleSatisfies v r =
     (r = ''*'' \<or> (r = ''^1.0.0'' \<and> v = ''1.0.0'') \<or> (r = ''^2.0.0'' \<and> v = ''2.0.0''))"

definition diskEnv :: "(string \<times> (string \<times> Plugin) list) list \<Rightarrow> env" where
  "diskEnv disk =
     \<lparr>readdir = (\<lambda>d. case map_of disk d of Some files \<Rightarrow> map fst files | None \<Rightarrow> []),
      importModule = (\<lambda>d f.
         case map_of disk d of
           Some files \<Rightarrow> (case map_of files f of Some p \<Rightarrow> Module p | None \<Rightarrow> ImportFails)
         | None \<Rightarrow> ImportFails),
      satisfies = exampleSatisfies\<rparr>"

definition freshLoader :: PluginLoader3 where
  "freshLoader = newLoader ''plugins'' ''1.0.0'' ''.plugin'' None"

text \<open>Two plugins, the name of one contained in the name of the other; that disk with
  \<open>aa.plugin.js\<close> loaded and nothing else; and that disk after a file was added that is
  listed first and matches every identifier that \<open>a.plugin.js\<close> matches.\<close>

definition similarNames :: env where
  "similarNames =
     diskEnv [(''plugins'',
       [(''a.plugin.js'', examplePlugin (exampleMeta ''a'' ''^1.0.0'' [] False)),
        (''aa.plugin.js'', examplePlugin (exampleMeta ''aa'' ''^1.0.0'' [] False))])]"

definition onlyAALoaded :: PluginLoader3 where
  "onlyAALoaded = snd (loadPlugin similarNames freshLoader ''aa.plugin.js'' None)"

definition fileAdded :: env where
  "fileAdded =
     diskEnv [(''plugins'',
       [(''0a.plugin.js'', examplePlugin (exampleMeta ''0a'' ''^1.0.0'' [] False)),
        (''a.plugin.js'', examplePlugin (exampleMeta ''a'' ''^1.0.0'' [] False)),
        (''aa.plugin.js'', examplePlugin (exampleMeta ''aa'' ''^1.0.0'' [] False))])]"

text \<open>Two calls of the resolver for \<open>a\<close> on the fresh loader wait for their listing
  (\<open>bothListing\<close>); the listing of one arrives, read before the file was added
  (\<open>firstListed\<close>); the listing of the other arrives, read after (\<open>secondListed\<close>).\<close>

definition bothListing :: Running where
  "bothListing =
     runAll [(similarNames, Begin ''a''), (similarNames, Begin ''a'')]
       \<lparr>loader = freshLoader, listing = []\<rparr>"

definition firstListed :: Running where
  "firstListed = snd (run similarNames (Listed ''a'') bothListing)"

definition secondListed :: Running where
  "secondListed = snd (run fileAdded (Listed ''a'') firstListed)"

text \<open>A disk without any file, and the loader of \<open>similarNames\<close> after it resolved
  the empty identifier.\<close>

definition emptyDisk :: env where
  "emptyDisk = diskEnv []"

definition emptyCached :: PluginLoader3 where
  "emptyCached = snd (resolvePluginFilename similarNames freshLoader [])"

text \<open>Two plugin directories: \<open>extra\<close> holds a \<open>C.plugin.js\<close> that declares \<open>^2.0.0\<close>;
  \<open>plugins\<close> holds a file of the same name that declares \<open>^1.0.0\<close>, and \<open>elsewhere\<close>
  holds no file. A loader for \<open>extra\<close> without a parent (\<open>extraAlone\<close>), as the child of
  a loader for \<open>plugins\<close> (\<open>extraUnderPlugins\<close>) and as the child of a loader for
  \<open>elsewhere\<close> (\<open>extraUnderElsewhere\<close>), each configured with API version \<open>1.0.0\<close>.\<close>

definition threeDirectories :: env where
  "threeDirectories =
     diskEnv
       [(''plugins'', [(''C.plugin.js'', examplePlugin (exampleMeta ''C'' ''^1.0.0'' [] False))]),
        (''extra'', [(''C.plugin.js'', examplePlugin (exampleMeta ''C'' ''^2.0.0'' [] False))]),
        (''elsewhere'', [])]"

definition extraAlone :: PluginLoader3 where
  "extraAlone = newLoader ''extra'' ''1.0.0'' ''.plugin'' None"

definition extraUnderPlugins :: PluginLoader3 where
  "extraUnderPlugins =
     newLoader ''extra'' ''1.0.0'' ''.plugin'' (Some (newLoader ''plugins'' ''1.0.0'' ''.plugin'' None))"

definition extraUnderElsewhere :: PluginLoader3 where
  "extraUnderElsewhere =
     newLoader ''extra'' ''1.0.0'' ''.plugin'' (Some (newLoader ''elsewhere'' ''1.0.0'' ''.plugin'' None))"

text \<open>The two similar names again, \<open>a.plugin.js\<close> now declaring \<open>^2.0.0\<close>, and the
  loader that has loaded \<open>aa.plugin.js\<close> from that disk.\<close>

definition newerA :: env where
  "newerA =
     diskEnv [(''plugins'',
       [(''a.plugin.js'', examplePlugin (exampleMeta ''a'' ''^2.0.0'' [] False)),
        (''aa.plugin.js'', examplePlugin (exampleMeta ''aa'' ''^1.0.0'' [] False))])]"

definition besideNewerA :: PluginLoader3 where
  "besideNewerA = snd (loadPlugin newerA freshLoader ''aa.plugin.js'' None)"

text \<open>Plugin A depends on plugin B, which it declares by its short name (as in the
  specification's scenario) or by its file name, with a required state, and with or
  without \<open>stayLoadedOnDependencyLoss\<close>.\<close>

definition dependsOn :: "string \<Rightarrow> pstate \<Rightarrow> bool \<Rightarrow> env" where
  "dependsOn dependency st stay =
     diskEnv [(''plugins'',
       [(''A.plugin.js'', examplePlugin (exampleMeta ''A'' ''^1.0.0'' [(dependency, DepState st)] stay)),
        (''B.plugin.js'', examplePlugin (exampleMeta ''B'' ''^1.0.0'' [] False))])]"

text \<open>B loaded and started, then A loaded with target state \<open>started\<close>, and every deferred
  piece of work run: both plugins are loaded and started. Then the same after
  \<open>stopPlugin("B")\<close>, before the deferred \<open>pluginStopped\<close> event is emitted.\<close>

definition bothStarted :: "env \<Rightarrow> PluginLoader3" where
  "bothStarted E =
     performAll
       [(E, LoadPlugin ''B'' (Some Started)), (E, NextTask), (E, NextTask),
        (E, LoadPlugin ''A'' (Some Started)), (E, NextTask), (E, NextTask)]
       freshLoader"

definition afterStopB :: "env \<Rightarrow> PluginLoader3" where
  "afterStopB E = snd (stopPlugin E (bothStarted E) ''B'')"

text \<open>A child of the loader in which A and B run, and the disk after B's file was
  edited.\<close>

definition childLoader :: PluginLoader3 where
  "childLoader = newLoader ''plugins'' ''1.0.0'' ''.plugin'' (Some (bothStarted (dependsOn ''B'' Started False)))"

definition editedDisk :: env where
  "editedDisk =
     diskEnv [(''plugins'',
       [(''A.plugin.js'', examplePlugin (exampleMeta ''A'' ''^1.0.0'' [(''B'', DepState Started)] False)),
        (''B.plugin.js'', examplePlugin (exampleMeta ''B, edited'' ''^1.0.0'' [] False))])]"

text \<open>The same parent with a child whose own directory, \<open>elsewhere\<close>, holds no file.\<close>

definition withElsewhere :: env where
  "withElsewhere =
     diskEnv
       [(''plugins'',
         [(''A.plugin.js'', examplePlugin (exampleMeta ''A'' ''^1.0.0'' [(''B'', DepState Started)] False)),
          (''B.plugin.js'', examplePlugin (exampleMeta ''B'' ''^1.0.0'' [] False))]),
        (''elsewhere'', [])]"

definition childElsewhere :: PluginLoader3 where
  "childElsewhere =
     newLoader ''elsewhere'' ''1.0.0'' ''.plugin'' (Some (bothStarted (dependsOn ''B'' Started False)))"

text \<open>A parent that resolved \<open>a.plugin.js\<close> while the directory listed \<open>aa.plugin.js\<close>
  first (\<open>listedAfter\<close>), so that it has \<open>aa.plugin.js\<close> cached for that name, and later
  loaded \<open>a\<close>, which by then resolved to \<open>a.plugin.js\<close>: it has a plugin loaded under
  \<open>a.plugin.js\<close>. Its child over the same directory (\<open>childOfCached\<close>), and the disk
  after \<open>aa.plugin.js\<close> was edited (\<open>editedAA\<close>).\<close>

definition listedAfter :: env where
  "listedAfter =
     diskEnv [(''plugins'',
       [(''aa.plugin.js'', examplePlugin (exampleMeta ''aa'' ''^1.0.0'' [] False)),
        (''a.plugin.js'', examplePlugin (exampleMeta ''a'' ''^1.0.0'' [] False))])]"

definition cachedParent :: PluginLoader3 where
  "cachedParent =
     performAll
       [(listedAfter, Resolve ''a.plugin.js''),
        (similarNames, LoadPlugin ''a'' None),
        (similarNames, NextTask)]
       freshLoader"

definition childOfCached :: PluginLoader3 where
  "childOfCached = newLoader ''plugins'' ''1.0.0'' ''.plugin'' (Some cachedParent)"

definition editedAA :: env where
  "editedAA =
     diskEnv [(''plugins'',
       [(''a.plugin.js'', examplePlugin (exampleMeta ''a'' ''^1.0.0'' [] False)),
        (''aa.plugin.js'', examplePlugin (exampleMeta ''aa, edited'' ''^1.0.0'' [] False))])]"

text \<open>The installation in which A declares B by its file name, with required state
  \<open>started\<close>; A's plugin object there; and the same installation with
  \<open>stayLoadedOnDependencyLoss\<close> set.\<close>

definition byFileName :: env where
  "byFileName = dependsOn ''B.plugin.js'' Started False"

definition pluginA :: Plugin where
  "pluginA = examplePlugin (exampleMeta ''A'' ''^1.0.0'' [(''B.plugin.js'', DepState Started)] False)"

definition staying :: env where
  "staying = dependsOn ''B.plugin.js'' Started True"

text \<open>In it, with both plugins running, B is stopped (\<open>lostB\<close>); the handler of
  \<open>pluginStopped\<close> runs (the cascade stops and unloads A and submits its load) and so do
  the two events of A, the submitted load still to come (\<open>tornA\<close>); the submitted load
  runs and is suspended, and B is started again, the \<open>pluginStarted\<close> event still to
  come (\<open>awaitingB\<close>); the event is handled (\<open>resumedA\<close>); and the continuation of A's
  load has run (\<open>reloadedA\<close>).\<close>

definition lostB :: PluginLoader3 where
  "lostB = afterStopB byFileName"

definition tornA :: PluginLoader3 where
  "tornA =
     performAll
       [(byFileName, StopPlugin ''B''),
        (byFileName, NextTask),
        (byFileName, NextTask),
        (byFileName, NextTask)]
       (bothStarted byFileName)"

definition awaitingB :: PluginLoader3 where
  "awaitingB =
     performAll
       [(byFileName, StopPlugin ''B''),
        (byFileName, NextTask),
        (byFileName, NextTask),
        (byFileName, NextTask),
        (byFileName, NextTask),
        (byFileName, StartPlugin ''B'')]
       (bothStarted byFileName)"

definition resumedA :: PluginLoader3 where
  "resumedA = loadedListener byFileName awaitingB"

definition reloadedA :: PluginLoader3 where
  "reloadedA = runTask byFileName resumedA (ResumeLoad ''A.plugin.js'' (Some Started))"

text \<open>In the same installation A is stopped and unloaded on purpose while B runs
  (\<open>withoutA\<close>), and then B is stopped (\<open>droppedA\<close>): A is still recorded as a dependant
  of B.\<close>

definition withoutA :: PluginLoader3 where
  "withoutA =
     performAll
       [(byFileName, StopPlugin ''A''),
        (byFileName, UnloadPlugin ''A''),
        (byFileName, NextTask),
        (byFileName, NextTask)]
       (bothStarted byFileName)"

definition droppedA :: PluginLoader3 where
  "droppedA = snd (stopPlugin byFileName withoutA ''B'')"

text \<open>An installation in which A requires B loaded, as an optional dependency and in
  a version that B does not have: the dependency check of A skips B. Both are loaded
  and B is unloaded (\<open>unloadedB\<close>); then the handler of \<open>pluginUnloaded\<close> has run
  (\<open>cascadedB\<close>).\<close>

definition pluginOpt :: Plugin where
  "pluginOpt =
     examplePlugin (exampleMeta ''A'' ''^1.0.0''
       [(''B.plugin.js'', DepObject (Some Loaded) (Some True) (Some ''^2.0.0''))] False)"

definition optionalB :: env where
  "optionalB =
     diskEnv [(''plugins'',
       [(''A.plugin.js'', pluginOpt),
        (''B.plugin.js'', examplePlugin (exampleMeta ''B'' ''^1.0.0'' [] False))])]"

definition unloadedB :: PluginLoader3 where
  "unloadedB =
     performAll
       [(optionalB, LoadPlugin ''B'' None),
        (optionalB, NextTask),
        (optionalB, LoadPlugin ''A'' None),
        (optionalB, NextTask),
        (optionalB, UnloadPlugin ''B'')]
       freshLoader"

definition cascadedB :: PluginLoader3 where
  "cascadedB = snd (stoppedListener optionalB unloadedB ''B.plugin.js'')"

section \<open>Basic facts\<close>

subsection \<open>Accessors, lookups and strings\<close>

lemma this_updThis [simp]: "this (updThis f l) = f (this l)"
  by (simp add: updThis_def)

lemma parent_updThis [simp]: "parent (updThis f l) = parent l"
  by (simp add: updThis_def)

lemma this_setParent [simp]: "this (setParent l p) = this l"
  by (simp add: setParent_def)

lemma parent_setParent [simp]: "parent (setParent l p) = Some p"
  by (simp add: setParent_def)

lemma this_schedule [simp]: "this (schedule t l) = (this l)\<lparr>tasks := tasks (this l) @ [t]\<rparr>"
  by (simp add: schedule_def)

lemma parent_schedule [simp]: "parent (schedule t l) = parent l"
  by (simp add: schedule_def)

lemma listPlugins_eq:
  "listPlugins E l includeParent = filter (isPluginFile (fileExtension (this l))) (readdir E (pluginDir (this l)))"
  by (cases l) (simp add: Let_def)

lemma getLoadedPlugins_eq: "getLoadedPlugins l includeParent = map fst (loadedPlugins (this l))"
  by (cases l) (simp add: Let_def)

lemma getStartedPlugins_eq: "getStartedPlugins l includeParent = map fst (startedPlugins (this l))"
  by (cases l) (simp add: Let_def)

lemma str_includes_empty [simp]: "str_includes s []"
  by (cases s) simp_all

lemma startsWith_self [simp]: "startsWith s s"
  by (induction s) simp_all

lemma str_includes_self [simp]: "str_includes s s"
  by (cases s) simp_all

lemma matchesID_empty [simp]: "matchesID [] f"
  by (simp add: matchesID_def toLowerCase_def)

lemma matchesID_self [simp]: "matchesID f f"
  by (simp add: matchesID_def)

lemma isPluginFile_nonempty: "isPluginFile ext f \<Longrightarrow> f \<noteq> []"
  by (auto simp: isPluginFile_def sourceSuffix_def Let_def split: if_splits)

lemma find_first_None: "find_first P xs = None \<longleftrightarrow> (\<forall>x\<in>set xs. \<not> P x)"
  by (induction xs) auto

lemma find_first_Some_mem: "find_first P xs = Some x \<Longrightarrow> x \<in> set xs \<and> P x"
  by (induction xs) (auto split: if_splits)

subsection \<open>The resolver cache only grows\<close>

lemma withoutCache_updCache [simp]: "withoutCache (s\<lparr>resolverTable := t\<rparr>) = withoutCache s"
  by (simp add: withoutCache_def)

lemma resolve_unfold:
  "resolvePluginFilename E l fileID =
     (let cached = (case resolverTable (this l) fileID of Some c \<Rightarrow> c | None \<Rightarrow> [])
      in if cached \<noteq> [] then (Inr cached, l)
         else
           (let pluginFiles = listPlugins E l False
            in case find_first (matchesID fileID) pluginFiles of
                 None \<Rightarrow> (Inl (FileNotFoundError fileID), l)
               | Some resolvedFilename \<Rightarrow>
                   if resolvedFilename = [] then (Inl (FileNotFoundError fileID), l)
                   else (Inr resolvedFilename,
                         updThis (\<lambda>s. s\<lparr>resolverTable := (resolverTable s)(fileID \<mapsto> resolvedFilename)\<rparr>) l)))"
  by (simp add: resolvePluginFilename_def cacheHit_def resolveListed_def Let_def split: option.splits)

lemma resolve_frame:
  "withoutCache (this (snd (resolvePluginFilename E l fileID))) = withoutCache (this l)"
  "parent (snd (resolvePluginFilename E l fileID)) = parent l"
  by (auto simp: resolve_unfold Let_def split: option.splits)

lemma resolve_cached:
  "cachedAs l fileID f \<Longrightarrow> resolvePluginFilename E l fileID = (Inr f, l)"
  by (simp add: resolve_unfold cachedAs_def)

lemma resolve_caches:
  "fst (resolvePluginFilename E l fileID) = Inr f \<Longrightarrow> cachedAs (snd (resolvePluginFilename E l fileID)) fileID f"
  by (auto simp: resolve_unfold cachedAs_def Let_def split: option.splits if_splits)

lemma resolve_keeps:
  "cachedAs l k f \<Longrightarrow> cachedAs (snd (resolvePluginFilename E l fileID)) k f"
  by (auto simp: resolve_unfold cachedAs_def Let_def split: option.splits if_splits)

lemma importPlugin_snd [simp]: "snd (importPlugin E l f) = l"
  by (simp add: importPlugin_def split: imported.splits)

lemma cachedAs_setParent [simp]: "cachedAs (setParent l p) k f = cachedAs l k f"
  by (simp add: cachedAs_def)

lemma cacheKept_refl [simp]: "cacheKept l l"
  by (simp add: cacheKept_def)

lemma cacheKept_trans: "cacheKept l l1 \<Longrightarrow> cacheKept l1 l2 \<Longrightarrow> cacheKept l l2"
  by (simp add: cacheKept_def)

lemma cacheGrows_refl [simp]: "cacheGrows l l"
  by (simp add: cacheGrows_def)

lemma cacheGrows_trans: "cacheGrows l l1 \<Longrightarrow> cacheGrows l1 l2 \<Longrightarrow> cacheGrows l l2"
  by (auto simp: cacheGrows_def intro: cacheKept_trans)

lemma cacheGrows_kept: "cacheGrows l l' \<Longrightarrow> cacheKept l l'"
  by (simp add: cacheGrows_def)

lemma cacheKept_this: "this l' = this l \<Longrightarrow> cacheKept l l'"
  by (simp add: cacheKept_def cachedAs_def)

lemma cacheGrows_this: "this l2 = this l1 \<Longrightarrow> cacheGrows l l1 \<Longrightarrow> cacheGrows l l2"
  by (simp add: cacheGrows_def cacheKept_def cachedAs_def)

lemma cacheKept_this_right: "this l2 = this l1 \<Longrightarrow> cacheKept l l1 \<Longrightarrow> cacheKept l l2"
  by (simp add: cacheKept_def cachedAs_def)

lemma resolve_grows: "cacheGrows l (snd (resolvePluginFilename E l fileID))"
  by (simp add: cacheGrows_def cacheKept_def resolve_frame resolve_keeps)

lemma getPlugin_this:
  "this (snd (getPlugin E l fileID includeParent)) = this (snd (resolvePluginFilename E l fileID))"
  by (cases l) (auto split: prod.splits sum.splits option.splits)

lemma getPlugin_grows: "cacheGrows l (snd (getPlugin E l fileID includeParent))"
  using resolve_grows [of l E fileID] getPlugin_this [of E l fileID includeParent]
  by (simp add: cacheGrows_this)

lemma getPluginInfo_snd:
  "snd (getPluginInfo E l fileID includeParent) = snd (getPlugin E l fileID includeParent)"
  by (simp add: getPluginInfo_def split: prod.splits sum.splits option.splits)

lemma getPluginInfo_grows: "cacheGrows l (snd (getPluginInfo E l fileID includeParent))"
  by (simp add: getPluginInfo_snd getPlugin_grows)

lemma checkDependencies_grows: "cacheGrows l (snd (checkDependencies E l fileID deps))"
proof (induction deps arbitrary: l)
  case Nil
  show ?case by simp
next
  case (Cons d deps)
  obtain dependencyName dep where d: "d = (dependencyName, dep)" by (cases d)
  obtain r l1 where g: "getPluginInfo E l dependencyName True = (r, l1)"
    by (cases "getPluginInfo E l dependencyName True")
  have l1: "cacheGrows l l1"
    using getPluginInfo_grows [of l E dependencyName True] g by simp
  have rest: "cacheGrows l (snd (checkDependencies E l1 fileID deps))"
    using l1 Cons.IH [of l1] by (rule cacheGrows_trans)
  show ?case
    using l1 rest by (simp add: d g split: sum.splits)
qed

lemma allDependenciesSatisfied_grows:
  "cacheGrows l (snd (allDependenciesSatisfied E l fileID))"
proof -
  obtain r l1 where g: "getPluginInfo E l fileID True = (r, l1)"
    by (cases "getPluginInfo E l fileID True")
  have l1: "cacheGrows l l1"
    using getPluginInfo_grows [of l E fileID True] g by simp
  have "cacheGrows l (snd (checkDependencies E l1 fileID deps))" for deps
    using l1 checkDependencies_grows [of l1 E fileID deps] by (rule cacheGrows_trans)
  then show ?thesis
    using l1 by (simp add: allDependenciesSatisfied_def g split: sum.splits)
qed

lemma cachedAs_updThis:
  "resolverTable (g (this l)) = resolverTable (this l) \<Longrightarrow> cachedAs (updThis g l) k f = cachedAs l k f"
  by (simp add: cachedAs_def)

lemma cacheKept_updThis:
  "resolverTable (g (this l1)) = resolverTable (this l1) \<Longrightarrow> cacheKept l l1 \<Longrightarrow> cacheKept l (updThis g l1)"
  by (simp add: cacheKept_def cachedAs_updThis)

lemma cacheKept_schedule: "cacheKept l l1 \<Longrightarrow> cacheKept l (schedule t l1)"
  by (simp add: schedule_def cacheKept_updThis)

lemma finishLoad_kept: "cacheKept l (snd (finishLoad E l resolved targetState))"
proof -
  obtain r l1 where g: "getPlugin E l resolved False = (r, l1)"
    by (cases "getPlugin E l resolved False")
  have l1: "cacheKept l l1"
    using getPlugin_grows [of l E resolved False] g by (simp add: cacheGrows_def)
  show ?thesis
    using l1
    by (simp add: finishLoad_def g Let_def cacheKept_schedule cacheKept_updThis
        split: sum.splits option.splits)
qed

lemma loadPlugin_kept: "cacheKept l (snd (loadPlugin E l fileID targetState))"
proof -
  obtain r l1 where g: "resolvePluginFilename E l fileID = (r, l1)"
    by (cases "resolvePluginFilename E l fileID")
  have l1: "cacheKept l l1"
    using resolve_grows [of l E fileID] g by (simp add: cacheGrows_def)
  have l2: "cacheKept l (snd (allDependenciesSatisfied E l1 x))" for x
    using l1 allDependenciesSatisfied_grows [of l1 E x, THEN cacheGrows_kept]
    by (rule cacheKept_trans)
  have l3: "cacheKept l (snd (finishLoad E (snd (allDependenciesSatisfied E l1 x)) x t))" for x t
    using l2 finishLoad_kept by (rule cacheKept_trans)
  show ?thesis
  proof (cases r)
    case (Inl e)
    then show ?thesis using l1 by (simp add: loadPlugin_def g)
  next
    case (Inr resolved)
    obtain c l2' where a: "allDependenciesSatisfied E l1 resolved = (c, l2')"
      by (cases "allDependenciesSatisfied E l1 resolved")
    show ?thesis
      using l1 l2 [of resolved] l3 [of resolved targetState]
      by (simp add: loadPlugin_def g Inr a cacheKept_updThis split: sum.splits bool.splits)
  qed
qed

lemma guarded_kept:
  assumes "\<And>resolved l2 plg. cacheKept l l2 \<Longrightarrow> cacheKept l (snd (body resolved l2 plg))"
  shows "cacheKept l (snd
     (case resolvePluginFilename E l fileID of
        (Inl e, l1) \<Rightarrow> (Inl e, l1)
      | (Inr resolved, l1) \<Rightarrow>
          if guard1 l1 resolved then (Inl (err1 resolved), l1)
          else if guard2 l1 resolved then (Inl (err2 resolved), l1)
          else
            (case getPlugin E l1 resolved False of
               (Inl e, l2) \<Rightarrow> (Inl e, l2)
             | (Inr None, l2) \<Rightarrow> (Inl TypeError, l2)
             | (Inr (Some plg), l2) \<Rightarrow> body resolved l2 plg)))"
proof -
  obtain r l1 where g: "resolvePluginFilename E l fileID = (r, l1)"
    by (cases "resolvePluginFilename E l fileID")
  have l1: "cacheKept l l1"
    using resolve_grows [of l E fileID] g by (simp add: cacheGrows_def)
  have l2: "cacheKept l (snd (getPlugin E l1 x False))" for x
    using l1 getPlugin_grows [of l1 E x False, THEN cacheGrows_kept]
    by (rule cacheKept_trans)
  show ?thesis
  proof (cases r)
    case (Inl e)
    then show ?thesis using l1 by (simp add: g)
  next
    case (Inr resolved)
    obtain c l2' where a: "getPlugin E l1 resolved False = (c, l2')"
      by (cases "getPlugin E l1 resolved False")
    have "cacheKept l l2'" using l2 [of resolved] a by simp
    then show ?thesis
      using l1 assms by (simp add: g Inr a split: sum.splits option.splits)
  qed
qed

lemma unloadPlugin_kept: "cacheKept l (snd (unloadPlugin E l fileID))"
  unfolding unloadPlugin_def
  by (rule guarded_kept) (simp add: cacheKept_schedule cacheKept_updThis)

lemma startPlugin_kept: "cacheKept l (snd (startPlugin E l fileID))"
  unfolding startPlugin_def
  by (rule guarded_kept) (simp add: cacheKept_schedule cacheKept_updThis)

lemma stopPlugin_kept: "cacheKept l (snd (stopPlugin E l fileID))"
  unfolding stopPlugin_def
  by (rule guarded_kept) (simp add: cacheKept_schedule cacheKept_updThis)

lemma callback_kept: "cacheKept l l1 \<Longrightarrow> cacheKept l (callback queueEntry l1)"
  by (simp add: callback_def cacheKept_schedule)

lemma reevaluate_kept: "cacheKept l (snd (reevaluate E entries l))"
proof (induction entries arbitrary: l)
  case Nil
  show ?case by simp
next
  case (Cons queueEntry entries)
  obtain r l1 where a: "allDependenciesSatisfied E l (plugin queueEntry) = (r, l1)"
    by (cases "allDependenciesSatisfied E l (plugin queueEntry)")
  have l1: "cacheKept l l1"
    using allDependenciesSatisfied_grows [of l E "plugin queueEntry"] a
    by (simp add: cacheGrows_def)
  have plain: "cacheKept l (snd (reevaluate E entries l1))"
    using l1 Cons.IH [of l1] by (rule cacheKept_trans)
  have fired: "cacheKept l (snd (reevaluate E entries (callback queueEntry l1)))"
    using callback_kept [OF l1] Cons.IH [of "callback queueEntry l1"] by (rule cacheKept_trans)
  show ?case
    using plain fired by (simp add: a case_prod_beta split: sum.splits bool.splits)
qed

lemma loadedListener_kept: "cacheKept l (loadedListener E l)"
  using reevaluate_kept [of l E "loadingQueue (this l)"]
  by (simp add: loadedListener_def cacheKept_updThis case_prod_beta)

lemma cascadeDependant_kept: "cacheKept l (snd (cascadeDependant E isUnloaded l entry))"
proof -
  obtain dependant state where e: "entry = (dependant, state)" by (cases entry)
  obtain r l1 where g: "getPluginInfo E l dependant False = (r, l1)"
    by (cases "getPluginInfo E l dependant False")
  have l1: "cacheKept l l1"
    using getPluginInfo_grows [of l E dependant False] g by (simp add: cacheGrows_def)
  define l2 where "l2 = snd (if isPluginStarted l1 dependant False then stopPlugin E l1 dependant else (Inr (), l1))"
  have l2: "cacheKept l l2"
    using l1 stopPlugin_kept [of l1 E dependant] by (auto simp: l2_def intro: cacheKept_trans)
  define l3 where "l3 = snd (if isPluginLoaded l1 dependant False then unloadPlugin E l2 dependant else (Inr (), l2))"
  have l3: "cacheKept l l3"
    using l2 unloadPlugin_kept [of l2 E dependant] by (auto simp: l3_def intro: cacheKept_trans)
  have l4: "cacheKept l (schedule t l3)" for t
    using l3 by (rule cacheKept_schedule)
  show ?thesis
    using l1 l2 l3 l4
    by (auto simp: cascadeDependant_def e g Let_def l2_def l3_def split: sum.splits prod.splits if_splits)
qed

lemma cascadeAll_kept: "cacheKept l (snd (cascadeAll E isUnloaded l entries))"
proof (induction entries arbitrary: l)
  case Nil
  show ?case by simp
next
  case (Cons entry entries)
  have "cacheKept l (snd (cascadeAll E isUnloaded (snd (cascadeDependant E isUnloaded l entry)) entries))"
    using cascadeDependant_kept Cons.IH by (rule cacheKept_trans)
  then show ?case by (simp add: case_prod_beta)
qed

lemma stoppedListener_kept: "cacheKept l (snd (stoppedListener E l filename))"
proof (cases "map_of (dependencyTree (this l)) filename")
  case None
  then show ?thesis by (simp add: stoppedListener_def)
next
  case (Some dependants)
  show ?thesis
    by (simp add: stoppedListener_def Some Let_def cacheKept_updThis cascadeAll_kept
        case_prod_beta split: option.splits)
qed

lemma emit_kept: "cacheKept l (emit E l ev)"
  by (cases ev)
    (simp_all add: emit_def startedListener_def unloadedListener_def loadedListener_kept
      stoppedListener_kept)

lemma runTask_kept: "cacheKept l (runTask E l t)"
proof (cases t)
  case (EmitLoaded resolved targetState)
  have "cacheKept l (snd (startPlugin E (emit E l (PluginLoaded resolved)) resolved))"
    using emit_kept startPlugin_kept by (rule cacheKept_trans)
  then show ?thesis by (simp add: runTask_def EmitLoaded Let_def emit_kept)
qed (simp_all add: runTask_def emit_kept finishLoad_kept loadPlugin_kept)

lemma nextTask_kept: "cacheKept l (nextTask E l)"
proof (cases "tasks (this l)")
  case Nil
  then show ?thesis by (simp add: nextTask_def)
next
  case (Cons t ts)
  have "cacheKept l (updThis (\<lambda>s. s\<lparr>tasks := ts\<rparr>) l)"
    by (simp add: cacheKept_updThis)
  then have "cacheKept l (runTask E (updThis (\<lambda>s. s\<lparr>tasks := ts\<rparr>) l) t)"
    using runTask_kept by (rule cacheKept_trans)
  then show ?thesis by (simp add: nextTask_def Cons)
qed

lemma perform_kept: "cacheKept l (perform E c l)"
  by (cases c)
    (simp_all add: perform_def resolve_grows getPlugin_grows cacheGrows_kept loadPlugin_kept
      unloadPlugin_kept startPlugin_kept stopPlugin_kept emit_kept nextTask_kept)

lemma performAll_kept: "cacheKept l (performAll cs l)"
proof (induction cs arbitrary: l)
  case Nil
  show ?case by simp
next
  case (Cons c cs)
  obtain E c' where c: "c = (E, c')" by (cases c)
  have "cacheKept l (performAll cs (perform E c' l))"
    using perform_kept Cons.IH by (rule cacheKept_trans)
  then show ?case by (simp add: c)
qed

subsection \<open>Resolutions in their two halves\<close>

lemma cacheHit_cachedAs: "cacheHit l k = Some f \<longleftrightarrow> cachedAs l k f"
  by (auto simp: cacheHit_def cachedAs_def split: option.splits)

lemma resolveListed_caches:
  "fst (resolveListed E l fileID) = Inr f \<Longrightarrow> cachedAs (snd (resolveListed E l fileID)) fileID f"
  by (auto simp: resolveListed_def cachedAs_def Let_def split: option.splits if_splits)

lemma resolveListed_keeps:
  "cachedAs l k f \<Longrightarrow> k \<noteq> fileID \<Longrightarrow> cachedAs (snd (resolveListed E l fileID)) k f"
  by (auto simp: resolveListed_def cachedAs_def Let_def split: option.splits if_splits)

lemma run_success_cached:
  assumes "fst (run E st r) = Some (Inr f)"
    and "st = Begin fileID \<or> st = Listed fileID \<or> st = Whole (Resolve fileID)"
  shows "cachedAs (loader (snd (run E st r))) fileID f"
  using assms resolveListed_caches [of E "loader r" fileID f] resolve_caches [of E "loader r" fileID f]
  by (auto simp: run_def perform_def cacheHit_cachedAs case_prod_beta split: option.splits if_splits)

lemma run_keeps:
  assumes "cachedAs (loader r) k f" and "k \<notin> set (listing r)"
  shows "cachedAs (loader (snd (run E st r))) k f \<and> k \<notin> set (listing (snd (run E st r)))"
proof (cases st)
  case (Begin fileID)
  show ?thesis
    using assms by (auto simp: run_def Begin cacheHit_cachedAs [symmetric] split: option.splits)
next
  case (Listed fileID)
  show ?thesis
  proof (cases "fileID \<in> set (listing r)")
    case True
    then have "k \<noteq> fileID" using assms(2) by auto
    then show ?thesis
      using assms True resolveListed_keeps [of "loader r" k f fileID E] notin_set_remove1 [of k "listing r" fileID]
      by (simp add: run_def Listed case_prod_beta)
  next
    case False
    then show ?thesis using assms by (simp add: run_def Listed)
  qed
next
  case (Whole c)
  show ?thesis
    using assms perform_kept [of "loader r" E c] by (simp add: run_def Whole cacheKept_def)
qed

lemma runAll_keeps:
  "cachedAs (loader r) k f \<Longrightarrow> k \<notin> set (listing r)
    \<Longrightarrow> cachedAs (loader (runAll sts r)) k f \<and> k \<notin> set (listing (runAll sts r))"
proof (induction sts arbitrary: r)
  case Nil
  then show ?case by simp
next
  case (Cons a sts)
  obtain E st where a: "a = (E, st)" by (cases a)
  show ?case
    using Cons.IH [of "snd (run E st r)"] run_keeps [OF Cons.prems, of E st] by (simp add: a)
qed

subsection \<open>The resolver on the empty identifier\<close>

lemma listPlugins_nonempty: "f \<in> set (listPlugins E l includeParent) \<Longrightarrow> f \<noteq> []"
  using isPluginFile_nonempty by (auto simp: listPlugins_eq)

lemma resolve_no_InvalidPluginError:
  "fst (resolvePluginFilename E l fileID) \<noteq> Inl InvalidPluginError"
  by (simp add: resolve_unfold Let_def split: option.splits)

lemma resolve_empty_miss:
  assumes "resolverTable (this l) [] = None"
  shows "resolvePluginFilename E l [] =
     (case listPlugins E l False of
        [] \<Rightarrow> (Inl (FileNotFoundError []), l)
      | f # fs \<Rightarrow> (Inr f, updThis (\<lambda>s. s\<lparr>resolverTable := (resolverTable s)([] \<mapsto> f)\<rparr>) l))"
proof (cases "listPlugins E l False")
  case Nil
  then show ?thesis using assms by (simp add: resolve_unfold)
next
  case (Cons f fs)
  then have "f \<noteq> []" using listPlugins_nonempty [of f E l False] by simp
  then show ?thesis using assms Cons by (simp add: resolve_unfold)
qed

lemma resolve_empty_FileNotFound:
  assumes "fst (resolvePluginFilename E l []) = Inl (FileNotFoundError [])"
  shows "listPlugins E l False = []"
proof (cases "listPlugins E l False")
  case Nil
  then show ?thesis .
next
  case (Cons f fs)
  then have "f \<noteq> []" using listPlugins_nonempty [of f E l False] by simp
  then show ?thesis
    using assms Cons by (simp add: resolve_unfold Let_def split: if_splits)
qed

subsection \<open>What a lookup leaves unchanged\<close>

lemma withoutCache_fields:
  assumes "withoutCache s' = withoutCache s"
  shows "pluginDir s' = pluginDir s" "loaderApiVersion s' = loaderApiVersion s"
    "fileExtension s' = fileExtension s" "dependencyTree s' = dependencyTree s"
    "loadedPlugins s' = loadedPlugins s" "startedPlugins s' = startedPlugins s"
    "loadingQueue s' = loadingQueue s" "tasks s' = tasks s"
  using assms by (cases s; cases s'; simp add: withoutCache_def)+

lemma cacheGrows_fields:
  assumes "cacheGrows l l'"
  shows "pluginDir (this l') = pluginDir (this l)"
    "loaderApiVersion (this l') = loaderApiVersion (this l)"
    "fileExtension (this l') = fileExtension (this l)"
    "dependencyTree (this l') = dependencyTree (this l)"
    "loadedPlugins (this l') = loadedPlugins (this l)"
    "startedPlugins (this l') = startedPlugins (this l)"
    "loadingQueue (this l') = loadingQueue (this l)"
    "tasks (this l') = tasks (this l)"
  using assms withoutCache_fields [of "this l'" "this l"] by (simp_all add: cacheGrows_def)

lemma isPluginLoaded_local:
  "isPluginLoaded l fileID includeParent =
     (case find_first (matchesID fileID) (map fst (loadedPlugins (this l))) of
        Some pluginName \<Rightarrow> pluginName \<noteq> [] | None \<Rightarrow> False)"
  by (simp add: isPluginLoaded_def getLoadedPlugins_eq)

lemma isPluginStarted_local:
  "isPluginStarted l fileID includeParent =
     (case find_first (matchesID fileID) (map fst (startedPlugins (this l))) of
        Some pluginName \<Rightarrow> pluginName \<noteq> [] | None \<Rightarrow> False)"
  by (simp add: isPluginStarted_def getStartedPlugins_eq)

lemma str_includes_Nil_left: "str_includes [] p \<longleftrightarrow> p = []"
  by simp

lemma matchesID_nonempty: "matchesID fileID n \<Longrightarrow> fileID \<noteq> [] \<Longrightarrow> n \<noteq> []"
  by (auto simp: matchesID_def toLowerCase_def)

lemma find_first_Some_ex: "x \<in> set xs \<Longrightarrow> P x \<Longrightarrow> \<exists>y. find_first P xs = Some y \<and> P y"
  by (induction xs) auto

lemma isPluginLoaded_key:
  assumes "resolved \<in> set (map fst (loadedPlugins (this l)))" and "resolved \<noteq> []"
  shows "isPluginLoaded l resolved includeParent"
proof -
  obtain y where y: "find_first (matchesID resolved) (map fst (loadedPlugins (this l))) = Some y"
      and m: "matchesID resolved y"
    using find_first_Some_ex [OF assms(1), of "matchesID resolved"] by auto
  have "y \<noteq> []" using m assms(2) by (rule matchesID_nonempty)
  then show ?thesis by (simp add: isPluginLoaded_local y)
qed

lemma isPluginStarted_key:
  assumes "resolved \<in> set (map fst (startedPlugins (this l)))" and "resolved \<noteq> []"
  shows "isPluginStarted l resolved includeParent"
proof -
  obtain y where y: "find_first (matchesID resolved) (map fst (startedPlugins (this l))) = Some y"
      and m: "matchesID resolved y"
    using find_first_Some_ex [OF assms(1), of "matchesID resolved"] by auto
  have "y \<noteq> []" using m assms(2) by (rule matchesID_nonempty)
  then show ?thesis by (simp add: isPluginStarted_local y)
qed

lemma resolve_result_nonempty:
  "fst (resolvePluginFilename E l fileID) = Inr f \<Longrightarrow> f \<noteq> []"
  using resolve_caches [of E l fileID f] by (simp add: cachedAs_def)

subsection \<open>Getting a plugin, case by case\<close>

lemma resolve_parentless:
  "fst (resolvePluginFilename E (PluginLoader3 s par) fileID) = fst (resolvePluginFilename E (PluginLoader3 s None) fileID)"
  "this (snd (resolvePluginFilename E (PluginLoader3 s par) fileID)) = this (snd (resolvePluginFilename E (PluginLoader3 s None) fileID))"
  by (simp_all add: resolve_unfold listPlugins_eq Let_def split: option.splits)

lemma resolve_parent: "parent (snd (resolvePluginFilename E l fileID)) = parent l"
  by (simp add: resolve_frame)

lemma importPlugin_fst:
  "pluginDir (this l') = pluginDir (this l) \<Longrightarrow> fst (importPlugin E l' f) = fst (importPlugin E l f)"
  by (simp add: importPlugin_def split: imported.splits)

lemma importPlugin_not_FileNotFound: "fst (importPlugin E l f) \<noteq> Inl (FileNotFoundError x)"
  by (simp add: importPlugin_def split: imported.splits)

lemma getPlugin_local:
  "fst (getPlugin E (PluginLoader3 s par) fileID False) = fst (getPlugin E (PluginLoader3 s None) fileID False)"
proof -
  obtain r l1 where a: "resolvePluginFilename E (PluginLoader3 s par) fileID = (r, l1)"
    by (cases "resolvePluginFilename E (PluginLoader3 s par) fileID")
  obtain r' l1' where b: "resolvePluginFilename E (PluginLoader3 s None) fileID = (r', l1')"
    by (cases "resolvePluginFilename E (PluginLoader3 s None) fileID")
  have "r' = r" "this l1' = this l1"
    using resolve_parentless [of E s par fileID] a b by simp_all
  then show ?thesis
    using importPlugin_fst [of l1' l1 E]
    by (simp add: a b split: sum.splits option.splits)
qed

lemma getPlugin_unresolved:
  "fst (resolvePluginFilename E l fileID) = Inl e \<Longrightarrow> fst (getPlugin E l fileID includeParent) = Inl e"
  by (cases l) (auto split: prod.splits sum.splits)

lemma resolve_error:
  "fst (resolvePluginFilename E l fileID) = Inl e \<Longrightarrow> e = FileNotFoundError fileID"
  by (auto simp: resolve_unfold Let_def split: option.splits if_splits)

lemma getPlugin_loaded:
  "fst (resolvePluginFilename E l fileID) = Inr f \<Longrightarrow> map_of (loadedPlugins (this l)) f = Some plg
    \<Longrightarrow> fst (getPlugin E l fileID includeParent) = Inr (Some plg)"
  using resolve_grows [of l E fileID, THEN cacheGrows_fields(5)]
  by (cases l) (auto split: prod.splits sum.splits)

lemma getPlugin_not_loaded_local:
  "fst (resolvePluginFilename E l fileID) = Inr f \<Longrightarrow> map_of (loadedPlugins (this l)) f = None
    \<Longrightarrow> fst (getPlugin E l fileID False) = fst (importPlugin E l f)"
proof -
  assume r: "fst (resolvePluginFilename E l fileID) = Inr f"
    and n: "map_of (loadedPlugins (this l)) f = None"
  obtain l1 where a: "resolvePluginFilename E l fileID = (Inr f, l1)"
    using r by (cases "resolvePluginFilename E l fileID") simp
  have g: "cacheGrows l l1" using resolve_grows [of l E fileID] a by simp
  have "fst (importPlugin E l1 f) = fst (importPlugin E l f)"
    using cacheGrows_fields(1) [OF g] by (rule importPlugin_fst)
  then show ?thesis
    using n cacheGrows_fields(5) [OF g] a by (cases l) (simp split: option.splits)
qed

lemma getPlugin_from_parent:
  "fst (resolvePluginFilename E l fileID) = Inr f \<Longrightarrow> map_of (loadedPlugins (this l)) f = None
    \<Longrightarrow> parent l = Some p \<Longrightarrow> fst (getPlugin E p f True) = Inr (Some plg)
    \<Longrightarrow> fst (getPlugin E l fileID True) = Inr (Some plg)"
  using resolve_grows [of l E fileID, THEN cacheGrows_fields(5)]
  by (cases l) (auto split: prod.splits sum.splits option.splits)

subsection \<open>Loaders that answer alike\<close>

lemma sameScope_unfold:
  "sameScope E l l' =
     (reads (this l') = reads (this l) \<and>
      (\<forall>k. fst (resolvePluginFilename E l' k) = fst (resolvePluginFilename E l k)) \<and>
      (case parent l of
         None \<Rightarrow> parent l' = None
       | Some p \<Rightarrow> (case parent l' of None \<Rightarrow> False | Some p' \<Rightarrow> sameScope E p p')))"
  by (cases l) simp

lemma sameScope_refl [simp]: "sameScope E l l"
proof (induction l)
  case (PluginLoader3 s par)
  then show ?case by (cases par) auto
qed

lemma sameScope_sym: "sameScope E l l' \<Longrightarrow> sameScope E l' l"
proof (induction l arbitrary: l')
  case (PluginLoader3 s par)
  show ?case
  proof (cases par)
    case None
    then show ?thesis
      using PluginLoader3.prems by (subst sameScope_unfold) auto
  next
    case (Some p)
    then obtain p' where p': "parent l' = Some p'" and rel: "sameScope E p p'"
      using PluginLoader3.prems by (auto split: option.splits)
    have "sameScope E p' p"
      using PluginLoader3.IH [of p p'] Some rel by simp
    then show ?thesis
      using PluginLoader3.prems Some p' by (subst sameScope_unfold) auto
  qed
qed

lemma sameScope_trans: "sameScope E l l1 \<Longrightarrow> sameScope E l1 l2 \<Longrightarrow> sameScope E l l2"
proof (induction l arbitrary: l1 l2)
  case (PluginLoader3 s par)
  note a = PluginLoader3.prems(1) and b = PluginLoader3.prems(2) [unfolded sameScope_unfold [of E l1 l2]]
  show ?case
  proof (cases par)
    case None
    then show ?thesis using a b by auto
  next
    case (Some p)
    then obtain p1 where p1: "parent l1 = Some p1" and r1: "sameScope E p p1"
      using a by (auto split: option.splits)
    obtain p2 where p2: "parent l2 = Some p2" and r2: "sameScope E p1 p2"
      using b p1 by (auto split: option.splits)
    have "sameScope E p p2"
      using PluginLoader3.IH [of p p1 p2] Some r1 r2 by simp
    then show ?thesis using a b Some p2 by auto
  qed
qed

lemma resolve_fst_this:
  "this l' = this l \<Longrightarrow> fst (resolvePluginFilename E l' k) = fst (resolvePluginFilename E l k)"
  by (simp add: resolve_unfold listPlugins_eq Let_def split: option.splits)

lemma resolve_after:
  "fst (resolvePluginFilename E (snd (resolvePluginFilename E l k)) k') = fst (resolvePluginFilename E l k')"
proof (cases "fst (resolvePluginFilename E l k)")
  case (Inl e)
  then have "snd (resolvePluginFilename E l k) = l"
    by (auto simp: resolve_unfold Let_def split: option.splits if_splits)
  then show ?thesis by simp
next
  case (Inr f)
  show ?thesis
  proof (cases "k' = k")
    case True
    have "cachedAs (snd (resolvePluginFilename E l k)) k f" using Inr by (rule resolve_caches)
    then show ?thesis using Inr True by (simp add: resolve_cached)
  next
    case False
    then show ?thesis
      by (auto simp: resolve_unfold listPlugins_eq Let_def split: option.splits)
  qed
qed

lemma reads_cacheGrows: "cacheGrows l l' \<Longrightarrow> reads (this l') = reads (this l)"
  by (simp add: reads_def cacheGrows_fields)

lemma sameScope_this:
  assumes "this l' = this l" and "parent l' = parent l"
  shows "sameScope E l l'"
proof -
  have "l' = l" using assms by (cases l; cases l') simp
  then show ?thesis by simp
qed

lemma sameScope_resolve: "sameScope E l (snd (resolvePluginFilename E l k))"
proof -
  have "reads (this (snd (resolvePluginFilename E l k))) = reads (this l)"
    using resolve_grows by (rule reads_cacheGrows)
  moreover have "parent (snd (resolvePluginFilename E l k)) = parent l"
    by (simp add: resolve_frame)
  ultimately show ?thesis
    by (subst sameScope_unfold) (simp add: resolve_after split: option.splits)
qed

lemma getPlugin_eq:
  "getPlugin E l fileID includeParent =
     (case resolvePluginFilename E l fileID of
        (Inl e, l1) \<Rightarrow> (Inl e, l1)
      | (Inr resolvedFilename, l1) \<Rightarrow>
          (case map_of (loadedPlugins (this l1)) resolvedFilename of
             Some p \<Rightarrow> (Inr (Some p), l1)
           | None \<Rightarrow>
               (case parent l of
                  None \<Rightarrow> importPlugin E l1 resolvedFilename
                | Some p \<Rightarrow>
                    if includeParent then
                      (case getPlugin E p resolvedFilename includeParent of
                         (Inl e, p') \<Rightarrow> (Inl e, setParent l1 p')
                       | (Inr (Some plg), p') \<Rightarrow> (Inr (Some plg), setParent l1 p')
                       | (Inr None, p') \<Rightarrow> importPlugin E (setParent l1 p') resolvedFilename)
                    else importPlugin E l1 resolvedFilename)))"
  by (cases l) (simp cong: prod.case_cong sum.case_cong option.case_cong)

lemma getPlugin_cases:
  assumes a: "resolvePluginFilename E l k = (r, l1)"
  shows "r = Inl e \<Longrightarrow> getPlugin E l k includeParent = (Inl e, l1)"
    and "r = Inr f \<Longrightarrow> map_of (loadedPlugins (this l)) f = Some plg
           \<Longrightarrow> getPlugin E l k includeParent = (Inr (Some plg), l1)"
    and "r = Inr f \<Longrightarrow> map_of (loadedPlugins (this l)) f = None \<Longrightarrow> parent l = None \<or> \<not> includeParent
           \<Longrightarrow> getPlugin E l k includeParent = importPlugin E l1 f"
    and "r = Inr f \<Longrightarrow> map_of (loadedPlugins (this l)) f = None \<Longrightarrow> parent l = Some p \<Longrightarrow> includeParent
           \<Longrightarrow> getPlugin E p f True = (c, q)
           \<Longrightarrow> getPlugin E l k includeParent =
                (case c of Inl e \<Rightarrow> (Inl e, setParent l1 q)
                 | Inr None \<Rightarrow> importPlugin E (setParent l1 q) f
                 | Inr (Some plg) \<Rightarrow> (Inr (Some plg), setParent l1 q))"
proof -
  have g: "cacheGrows l l1" using resolve_grows [of l E k] a by simp
  note ld = cacheGrows_fields(5) [OF g]
  show "r = Inl e \<Longrightarrow> getPlugin E l k includeParent = (Inl e, l1)"
    by (subst getPlugin_eq) (simp add: a)
  show "r = Inr f \<Longrightarrow> map_of (loadedPlugins (this l)) f = Some plg
           \<Longrightarrow> getPlugin E l k includeParent = (Inr (Some plg), l1)"
    by (subst getPlugin_eq) (simp add: a ld)
  show "r = Inr f \<Longrightarrow> map_of (loadedPlugins (this l)) f = None \<Longrightarrow> parent l = None \<or> \<not> includeParent
           \<Longrightarrow> getPlugin E l k includeParent = importPlugin E l1 f"
    by (subst getPlugin_eq) (auto simp: a ld split: option.splits)
  show "r = Inr f \<Longrightarrow> map_of (loadedPlugins (this l)) f = None \<Longrightarrow> parent l = Some p \<Longrightarrow> includeParent
           \<Longrightarrow> getPlugin E p f True = (c, q)
           \<Longrightarrow> getPlugin E l k includeParent =
                (case c of Inl e \<Rightarrow> (Inl e, setParent l1 q)
                 | Inr None \<Rightarrow> importPlugin E (setParent l1 q) f
                 | Inr (Some plg) \<Rightarrow> (Inr (Some plg), setParent l1 q))"
    by (subst getPlugin_eq) (simp add: a ld split: sum.splits option.splits)
qed

lemma getPlugin_fst:
  "fst (getPlugin E l k includeParent) =
     (case fst (resolvePluginFilename E l k) of
        Inl e \<Rightarrow> Inl e
      | Inr r \<Rightarrow>
          (case map_of (loadedPlugins (this l)) r of
             Some plg \<Rightarrow> Inr (Some plg)
           | None \<Rightarrow>
               (case parent l of
                  None \<Rightarrow> fst (importPlugin E l r)
                | Some p \<Rightarrow>
                    if includeParent then
                      (case fst (getPlugin E p r True) of
                         Inl e \<Rightarrow> Inl e
                       | Inr None \<Rightarrow> fst (importPlugin E l r)
                       | Inr (Some plg) \<Rightarrow> Inr (Some plg))
                    else fst (importPlugin E l r))))"
proof -
  obtain r l1 where a: "resolvePluginFilename E l k = (r, l1)"
    by (cases "resolvePluginFilename E l k")
  have g: "cacheGrows l l1" using resolve_grows [of l E k] a by simp
  have imp: "fst (importPlugin E l1 f) = fst (importPlugin E l f)"
    "fst (importPlugin E (setParent l1 q) f) = fst (importPlugin E l f)" for f q
    by (rule importPlugin_fst, simp add: cacheGrows_fields(1) [OF g])+
  note c = getPlugin_cases [OF a]
  show ?thesis
  proof (cases r)
    case (Inl e)
    then show ?thesis using c(1) [OF Inl] by (simp add: a)
  next
    case (Inr f)
    show ?thesis
    proof (cases "map_of (loadedPlugins (this l)) f")
      case (Some plg)
      then show ?thesis using c(2) [OF Inr Some] by (simp add: a Inr)
    next
      case None
      show ?thesis
      proof (cases "parent l = None \<or> \<not> includeParent")
        case True
        then show ?thesis
          using c(3) [OF Inr None True] imp
          by (auto simp: a Inr None split: option.splits)
      next
        case False
        then obtain p where p: "parent l = Some p" and inc: includeParent by auto
        obtain c' q where b: "getPlugin E p f True = (c', q)"
          by (cases "getPlugin E p f True")
        show ?thesis
          using c(4) [OF Inr None p inc b] imp
          by (simp add: a Inr None p inc b split: sum.splits option.splits)
      qed
    qed
  qed
qed

lemma getPlugin_parent:
  "parent (snd (getPlugin E l k includeParent)) =
     (case parent l of
        None \<Rightarrow> None
      | Some p \<Rightarrow>
          (case fst (resolvePluginFilename E l k) of
             Inl e \<Rightarrow> Some p
           | Inr r \<Rightarrow>
               if includeParent \<and> map_of (loadedPlugins (this l)) r = None
               then Some (snd (getPlugin E p r True)) else Some p))"
proof -
  obtain r l1 where a: "resolvePluginFilename E l k = (r, l1)"
    by (cases "resolvePluginFilename E l k")
  have pl: "parent l1 = parent l" using resolve_frame(2) [of E l k] a by simp
  note c = getPlugin_cases [OF a]
  show ?thesis
  proof (cases r)
    case (Inl e)
    then show ?thesis using c(1) [OF Inl] pl by (simp add: a split: option.splits)
  next
    case (Inr f)
    show ?thesis
    proof (cases "map_of (loadedPlugins (this l)) f")
      case (Some plg)
      then show ?thesis using c(2) [OF Inr Some] pl by (simp add: a Inr split: option.splits)
    next
      case None
      show ?thesis
      proof (cases "parent l = None \<or> \<not> includeParent")
        case True
        then show ?thesis
          using c(3) [OF Inr None True] pl
          by (auto simp: a Inr None split: option.splits)
      next
        case False
        then obtain p where p: "parent l = Some p" and inc: includeParent by auto
        obtain c' q where b: "getPlugin E p f True = (c', q)"
          by (cases "getPlugin E p f True")
        show ?thesis
          using c(4) [OF Inr None p inc b]
          by (simp add: a Inr None p inc b split: sum.splits option.splits)
      qed
    qed
  qed
qed

lemma sameScope_getPlugin: "sameScope E l (snd (getPlugin E l k includeParent))"
proof (induction l arbitrary: k includeParent)
  case (PluginLoader3 s par)
  let ?l = "PluginLoader3 s par"
  let ?l2 = "snd (getPlugin E ?l k includeParent)"
  have t: "this ?l2 = this (snd (resolvePluginFilename E ?l k))"
    by (rule getPlugin_this)
  have r: "reads (this ?l2) = reads s"
    using reads_cacheGrows [OF resolve_grows [of ?l E k]] by (simp add: t del: getPlugin.simps)
  have q: "fst (resolvePluginFilename E ?l2 k') = fst (resolvePluginFilename E ?l k')" for k'
    using resolve_fst_this [OF t, of E k'] by (simp add: resolve_after del: getPlugin.simps)
  have par: "case par of None \<Rightarrow> parent ?l2 = None
       | Some p \<Rightarrow> (case parent ?l2 of None \<Rightarrow> False | Some p' \<Rightarrow> sameScope E p p')"
  proof (cases par)
    case None
    then show ?thesis by (simp add: getPlugin_parent del: getPlugin.simps)
  next
    case (Some p)
    have "sameScope E p (snd (getPlugin E p k' True))" for k'
      using PluginLoader3.IH [of p k' True] Some by simp
    then show ?thesis
      using Some by (simp add: getPlugin_parent del: getPlugin.simps split: sum.splits)
  qed
  show ?case
    using r q par by (simp del: getPlugin.simps)
qed

lemma getPlugin_sameScope:
  "sameScope E l l' \<Longrightarrow> fst (getPlugin E l' k includeParent) = fst (getPlugin E l k includeParent)"
proof (induction l arbitrary: l' k includeParent)
  case (PluginLoader3 s par)
  let ?l = "PluginLoader3 s par"
  note rel = PluginLoader3.prems
  have reads: "reads (this l') = reads s" using rel by simp
  have res: "fst (resolvePluginFilename E l' k) = fst (resolvePluginFilename E ?l k)"
    using rel by simp
  have loaded: "loadedPlugins (this l') = loadedPlugins s"
    using reads by (simp add: reads_def)
  have imp: "fst (importPlugin E l' f) = fst (importPlugin E ?l f)" for f
    using reads by (intro importPlugin_fst) (simp add: reads_def)
  show ?case
  proof (cases par)
    case None
    then have "parent l' = None" using rel by simp
    then show ?thesis
      unfolding getPlugin_fst [of E l' k] getPlugin_fst [of E ?l k]
      using None loaded imp res
      by (simp del: getPlugin.simps split: sum.splits option.splits)
  next
    case (Some p)
    then obtain p' where p': "parent l' = Some p'" and prel: "sameScope E p p'"
      using rel by (auto split: option.splits)
    have ih: "fst (getPlugin E p' k' True) = fst (getPlugin E p k' True)" for k'
      using PluginLoader3.IH [of p p' k' True] Some prel by simp
    show ?thesis
      unfolding getPlugin_fst [of E l' k] getPlugin_fst [of E ?l k]
      using Some p' loaded imp res ih
      by (simp del: getPlugin.simps split: sum.splits option.splits)
  qed
qed

lemma sameScope_reads: "sameScope E l l' \<Longrightarrow> reads (this l') = reads (this l)"
  by (cases l) simp

lemma isPluginLoaded_sameScope:
  "sameScope E l l' \<Longrightarrow> isPluginLoaded l' x i = isPluginLoaded l x j"
  using sameScope_reads [of E l l'] by (simp add: isPluginLoaded_local reads_def)

lemma isPluginStarted_sameScope:
  "sameScope E l l' \<Longrightarrow> isPluginStarted l' x i = isPluginStarted l x j"
  using sameScope_reads [of E l l'] by (simp add: isPluginStarted_local reads_def)

lemma getPluginInfo_fst:
  "fst (getPluginInfo E l k i) =
     (case fst (getPlugin E l k i) of
        Inl e \<Rightarrow> Inl e | Inr None \<Rightarrow> Inl TypeError | Inr (Some plg) \<Rightarrow> Inr (meta plg))"
  by (simp add: getPluginInfo_def split: prod.splits sum.splits option.splits)

lemma getPluginInfo_sameScope:
  "sameScope E l l' \<Longrightarrow> fst (getPluginInfo E l' k i) = fst (getPluginInfo E l k i)"
  by (simp add: getPluginInfo_fst getPlugin_sameScope)

lemma sameScope_getPluginInfo: "sameScope E l (snd (getPluginInfo E l k i))"
  by (simp add: getPluginInfo_snd sameScope_getPlugin)

lemma sameScope_step:
  assumes "sameScope E l l'"
  shows "sameScope E (snd (getPluginInfo E l k i)) (snd (getPluginInfo E l' k i))"
proof -
  have "sameScope E (snd (getPluginInfo E l k i)) l"
    using sameScope_getPluginInfo by (rule sameScope_sym)
  then have "sameScope E (snd (getPluginInfo E l k i)) l'"
    using assms by (rule sameScope_trans)
  then show ?thesis
    using sameScope_getPluginInfo by (rule sameScope_trans)
qed

lemma checkDependencies_sameScope:
  "sameScope E l l' \<Longrightarrow> fst (checkDependencies E l' fileID deps) = fst (checkDependencies E l fileID deps)"
proof (induction deps arbitrary: l l')
  case Nil
  show ?case by simp
next
  case (Cons d deps)
  obtain dependencyName dep where d: "d = (dependencyName, dep)" by (cases d)
  obtain r l1 where a: "getPluginInfo E l dependencyName True = (r, l1)"
    by (cases "getPluginInfo E l dependencyName True")
  obtain l1' where a': "getPluginInfo E l' dependencyName True = (r, l1')"
    using getPluginInfo_sameScope [OF Cons.prems, of dependencyName True] a
    by (cases "getPluginInfo E l' dependencyName True") simp
  have rel: "sameScope E l1 l1'"
    using sameScope_step [OF Cons.prems, of dependencyName True] a a' by simp
  have ih: "fst (checkDependencies E l1' fileID deps) = fst (checkDependencies E l1 fileID deps)"
    using rel by (rule Cons.IH)
  show ?case
    using ih isPluginLoaded_sameScope [OF rel, of dependencyName True True]
      isPluginStarted_sameScope [OF rel, of dependencyName True True]
    by (simp add: d a a' split: sum.splits)
qed

lemma sameScope_checkDependencies: "sameScope E l (snd (checkDependencies E l fileID deps))"
proof (induction deps arbitrary: l)
  case Nil
  show ?case by simp
next
  case (Cons d deps)
  obtain dependencyName dep where d: "d = (dependencyName, dep)" by (cases d)
  obtain r l1 where a: "getPluginInfo E l dependencyName True = (r, l1)"
    by (cases "getPluginInfo E l dependencyName True")
  have l1: "sameScope E l l1"
    using sameScope_getPluginInfo [of E l dependencyName True] a by simp
  have rest: "sameScope E l (snd (checkDependencies E l1 fileID deps))"
    using l1 Cons.IH [of l1] by (rule sameScope_trans)
  show ?case
    using l1 rest by (simp add: d a split: sum.splits)
qed

lemma sameScope_apiVersion: "sameScope E l l' \<Longrightarrow> loaderApiVersion (this l') = loaderApiVersion (this l)"
  using sameScope_reads [of E l l'] by (simp add: reads_def)

lemma allDependenciesSatisfied_sameScope:
  assumes "sameScope E l l'"
  shows "fst (allDependenciesSatisfied E l' fileID) = fst (allDependenciesSatisfied E l fileID)"
proof -
  obtain r l1 where a: "getPluginInfo E l fileID True = (r, l1)"
    by (cases "getPluginInfo E l fileID True")
  obtain l1' where a': "getPluginInfo E l' fileID True = (r, l1')"
    using getPluginInfo_sameScope [OF assms, of fileID True] a
    by (cases "getPluginInfo E l' fileID True") simp
  have rel: "sameScope E l1 l1'"
    using sameScope_step [OF assms, of fileID True] a a' by simp
  show ?thesis
    using checkDependencies_sameScope [OF rel, of fileID] sameScope_apiVersion [OF rel]
    by (simp add: allDependenciesSatisfied_def a a' split: sum.splits)
qed

lemma sameScope_allDependenciesSatisfied:
  "sameScope E l (snd (allDependenciesSatisfied E l fileID))"
proof -
  obtain r l1 where a: "getPluginInfo E l fileID True = (r, l1)"
    by (cases "getPluginInfo E l fileID True")
  have l1: "sameScope E l l1"
    using sameScope_getPluginInfo [of E l fileID True] a by simp
  have "sameScope E l (snd (checkDependencies E l1 fileID deps))" for deps
    using l1 sameScope_checkDependencies by (rule sameScope_trans)
  then show ?thesis
    using l1 by (simp add: allDependenciesSatisfied_def a split: sum.splits)
qed

lemma resolve_fst_fields:
  assumes "resolverTable (this l') = resolverTable (this l)"
    and "pluginDir (this l') = pluginDir (this l)" and "fileExtension (this l') = fileExtension (this l)"
  shows "fst (resolvePluginFilename E l' k) = fst (resolvePluginFilename E l k)"
  using assms by (simp add: resolve_unfold listPlugins_eq Let_def split: option.splits)

lemma sameScope_updThis:
  assumes "resolverTable (f (this l)) = resolverTable (this l)" and "reads (f (this l)) = reads (this l)"
  shows "sameScope E l (updThis f l)"
proof -
  have "fst (resolvePluginFilename E (updThis f l) k) = fst (resolvePluginFilename E l k)" for k
    using assms by (intro resolve_fst_fields) (simp_all add: reads_def)
  moreover have "case parent l of None \<Rightarrow> True | Some p \<Rightarrow> sameScope E p p"
    by (simp split: option.splits)
  ultimately show ?thesis
    using assms(2) by (subst sameScope_unfold) (simp split: option.splits)
qed

lemma sameScope_callback: "sameScope E l (callback queueEntry l)"
  by (simp add: callback_def schedule_def sameScope_updThis reads_def)

subsection \<open>Re-evaluating the queue\<close>

lemma allDependenciesSatisfied_frame:
  "dependencyTree (this (snd (allDependenciesSatisfied E l k))) = dependencyTree (this l)"
  "loadedPlugins (this (snd (allDependenciesSatisfied E l k))) = loadedPlugins (this l)"
  "startedPlugins (this (snd (allDependenciesSatisfied E l k))) = startedPlugins (this l)"
  "loadingQueue (this (snd (allDependenciesSatisfied E l k))) = loadingQueue (this l)"
  "tasks (this (snd (allDependenciesSatisfied E l k))) = tasks (this l)"
  using cacheGrows_fields [OF allDependenciesSatisfied_grows [of l E k]] by simp_all

lemma callback_frame:
  "dependencyTree (this (callback e l)) = dependencyTree (this l)"
  "loadedPlugins (this (callback e l)) = loadedPlugins (this l)"
  "startedPlugins (this (callback e l)) = startedPlugins (this l)"
  "loadingQueue (this (callback e l)) = loadingQueue (this l)"
  "tasks (this (callback e l)) =
     tasks (this l) @ (if pending e then [ResumeLoad (resumes e) (resumeTarget e)] else [])"
  by (simp_all add: callback_def)

lemma reevaluate_char:
  "fst (reevaluate E entries l) =
     map (\<lambda>e. if fst (allDependenciesSatisfied E l (plugin e)) = Inr True
               then e\<lparr>pending := False\<rparr> else e) entries \<and>
   tasks (this (snd (reevaluate E entries l))) =
     tasks (this l) @
     map (\<lambda>e. ResumeLoad (resumes e) (resumeTarget e))
       (filter (\<lambda>e. pending e \<and> fst (allDependenciesSatisfied E l (plugin e)) = Inr True) entries) \<and>
   dependencyTree (this (snd (reevaluate E entries l))) = dependencyTree (this l) \<and>
   loadedPlugins (this (snd (reevaluate E entries l))) = loadedPlugins (this l) \<and>
   startedPlugins (this (snd (reevaluate E entries l))) = startedPlugins (this l) \<and>
   loadingQueue (this (snd (reevaluate E entries l))) = loadingQueue (this l) \<and>
   sameScope E l (snd (reevaluate E entries l))"
proof (induction entries arbitrary: l)
  case Nil
  show ?case by simp
next
  case (Cons e entries)
  obtain r l1 where a: "allDependenciesSatisfied E l (plugin e) = (r, l1)"
    by (cases "allDependenciesSatisfied E l (plugin e)")
  have s1: "sameScope E l l1"
    using sameScope_allDependenciesSatisfied [of E l "plugin e"] a by simp
  note f1 = allDependenciesSatisfied_frame [of E l "plugin e", unfolded a snd_conv]
  define l2 where "l2 = (if r = Inr True then callback e l1 else l1)"
  have s2: "sameScope E l l2"
    using s1 sameScope_callback [of E l1 e] by (auto simp: l2_def intro: sameScope_trans)
  have same: "fst (allDependenciesSatisfied E l2 k) = fst (allDependenciesSatisfied E l k)" for k
    using s2 by (rule allDependenciesSatisfied_sameScope)
  have f2: "dependencyTree (this l2) = dependencyTree (this l)"
    "loadedPlugins (this l2) = loadedPlugins (this l)"
    "startedPlugins (this l2) = startedPlugins (this l)"
    "loadingQueue (this l2) = loadingQueue (this l)"
    "tasks (this l2) = tasks (this l) @
       (if pending e \<and> r = Inr True then [ResumeLoad (resumes e) (resumeTarget e)] else [])"
    using f1 by (simp_all add: l2_def callback_frame)
  note ih = Cons.IH [of l2, unfolded same f2]
  have s3: "sameScope E l (snd (reevaluate E entries l2))"
    using s2 ih by (blast intro: sameScope_trans)
  have step: "reevaluate E (e # entries) l =
      ((if r = Inr True then e\<lparr>pending := False\<rparr> else e) # fst (reevaluate E entries l2),
       snd (reevaluate E entries l2))"
    by (cases r) (auto simp: a l2_def case_prod_beta split: bool.splits)
  have r: "fst (allDependenciesSatisfied E l (plugin e)) = r" by (simp add: a)
  show ?case
    unfolding step fst_conv snd_conv using ih s3 by (simp add: r)
qed

subsection \<open>The lifecycle operations on an unambiguous name\<close>

lemma onlyMatch_find:
  "onlyMatch A names \<Longrightarrow> find_first (matchesID A) names = (if A \<in> set names then Some A else None)"
proof (induction names)
  case Nil
  show ?case by simp
next
  case (Cons n names)
  have rest: "onlyMatch A names" using Cons.prems by (simp add: onlyMatch_def)
  show ?case
  proof (cases "matchesID A n")
    case True
    then have "n = A" using Cons.prems by (simp add: onlyMatch_def)
    then show ?thesis by simp
  next
    case False
    then have "n \<noteq> A" using matchesID_self [of A] by auto
    then show ?thesis using False Cons.IH [OF rest] by simp
  qed
qed

lemma isPluginLoaded_exact:
  "onlyMatch A (map fst (loadedPlugins (this l))) \<Longrightarrow> A \<noteq> []
    \<Longrightarrow> isPluginLoaded l A i \<longleftrightarrow> A \<in> set (map fst (loadedPlugins (this l)))"
  by (simp add: isPluginLoaded_local onlyMatch_find)

lemma isPluginStarted_exact:
  "onlyMatch A (map fst (startedPlugins (this l))) \<Longrightarrow> A \<noteq> []
    \<Longrightarrow> isPluginStarted l A i \<longleftrightarrow> A \<in> set (map fst (startedPlugins (this l)))"
  by (simp add: isPluginStarted_local onlyMatch_find)

lemma onlyMatch_delete: "onlyMatch A (map fst xs) \<Longrightarrow> onlyMatch A (map fst (AList.delete k xs))"
  by (induction xs) (auto simp: onlyMatch_def AList.delete_eq)

lemma not_in_delete: "A \<notin> set (map fst (AList.delete A xs))"
  by (induction xs) (auto simp: AList.delete_eq)

lemma map_of_key: "map_of xs A = Some v \<Longrightarrow> A \<in> set (map fst xs)"
  by (induction xs) (auto split: if_splits)

lemma cachedAs_nonempty: "cachedAs l k f \<Longrightarrow> f \<noteq> []"
  by (simp add: cachedAs_def)

lemma getPlugin_cached_loaded:
  assumes "cachedAs l A A" and "map_of (loadedPlugins (this l)) A = Some plg"
  shows "getPlugin E l A i = (Inr (Some plg), l)"
  using getPlugin_cases(2) [OF resolve_cached [OF assms(1), of E] refl assms(2)] .

lemma getPluginInfo_cached_loaded:
  assumes "cachedAs l A A" and "map_of (loadedPlugins (this l)) A = Some plg"
  shows "getPluginInfo E l A i = (Inr (meta plg), l)"
  by (simp add: getPluginInfo_def getPlugin_cached_loaded [OF assms])

lemma cachedAs_schedule [simp]: "cachedAs (schedule t l) k f = cachedAs l k f"
  by (simp add: cachedAs_def)

lemma stopPlugin_exact:
  assumes c: "cachedAs l A A" and ld: "map_of (loadedPlugins (this l)) A = Some plg"
    and os: "onlyMatch A (map fst (startedPlugins (this l)))"
    and st: "A \<in> set (map fst (startedPlugins (this l)))"
    and h: "stop plg \<noteq> Some Throws"
  shows "stopPlugin E l A =
     (Inr (), schedule (EmitStopped A)
                (updThis (\<lambda>s. s\<lparr>startedPlugins := AList.delete A (startedPlugins s)\<rparr>) l))"
proof -
  have ne: "A \<noteq> []" using c by (rule cachedAs_nonempty)
  have il: "isPluginLoaded l A False"
    using map_of_key [OF ld] ne by (rule isPluginLoaded_key)
  have started: "isPluginStarted l A False"
    using st ne by (rule isPluginStarted_key)
  show ?thesis
    using il started h
    by (simp add: stopPlugin_def resolve_cached [OF c] getPlugin_cached_loaded [OF c ld])
qed

lemma unloadPlugin_exact:
  assumes c: "cachedAs l A A" and ld: "map_of (loadedPlugins (this l)) A = Some plg"
    and os: "onlyMatch A (map fst (startedPlugins (this l)))"
    and ns: "A \<notin> set (map fst (startedPlugins (this l)))"
    and h: "unload plg \<noteq> Some Throws"
  shows "unloadPlugin E l A =
     (Inr (), schedule (EmitUnloaded A)
                (updThis (\<lambda>s. s\<lparr>loadedPlugins := AList.delete A (loadedPlugins s)\<rparr>) l))"
proof -
  have ne: "A \<noteq> []" using c by (rule cachedAs_nonempty)
  have il: "isPluginLoaded l A False"
    using map_of_key [OF ld] ne by (rule isPluginLoaded_key)
  have started: "\<not> isPluginStarted l A False"
    using ns by (simp add: isPluginStarted_exact [OF os ne])
  show ?thesis
    using il started h
    by (simp add: unloadPlugin_def resolve_cached [OF c] getPlugin_cached_loaded [OF c ld])
qed

lemma startPlugin_exact:
  assumes c: "cachedAs l A A" and ld: "map_of (loadedPlugins (this l)) A = Some plg"
    and ns: "\<not> isPluginStarted l A False"
    and h: "start plg \<noteq> Some Throws"
  shows "startPlugin E l A =
     (Inr (), schedule (EmitStarted A)
                (updThis (\<lambda>s. s\<lparr>startedPlugins := AList.update A plg (startedPlugins s)\<rparr>) l))"
proof -
  have ne: "A \<noteq> []" using c by (rule cachedAs_nonempty)
  have il: "isPluginLoaded l A False"
    using map_of_key [OF ld] ne by (rule isPluginLoaded_key)
  show ?thesis
    using il ns h
    by (simp add: startPlugin_def resolve_cached [OF c] getPlugin_cached_loaded [OF c ld])
qed

lemma loadPlugin_suspends:
  assumes c: "cachedAs l A A" and nl: "\<not> isPluginLoaded l A True"
    and u: "fst (allDependenciesSatisfied E l A) = Inr False"
  shows "loadPlugin E l A targetState =
     (Inr LoadSuspended,
      updThis (\<lambda>s. s\<lparr>loadingQueue := loadingQueue s @
         [\<lparr>plugin = A, resumes = A, resumeTarget = targetState, pending = True\<rparr>]\<rparr>)
        (snd (allDependenciesSatisfied E l A)))"
proof -
  obtain l2 where a: "allDependenciesSatisfied E l A = (Inr False, l2)"
    using u by (cases "allDependenciesSatisfied E l A") simp
  show ?thesis
    using nl by (simp add: loadPlugin_def resolve_cached [OF c] a)
qed

lemma finishLoad_exact:
  assumes c: "cachedAs l A A" and nl: "map_of (loadedPlugins (this l)) A = None"
    and imp: "importModule E (pluginDir (this l)) A = Module plg"
    and h: "load plg \<noteq> Some Throws"
  shows "finishLoad E l A targetState =
     (Inr LoadCompleted,
      schedule (EmitLoaded A targetState)
        (updThis (\<lambda>s. s\<lparr>loadedPlugins := AList.update A plg (loadedPlugins s)\<rparr>)
           (updThis (\<lambda>s. s\<lparr>dependencyTree :=
              registerDependencies A (pluginDependencies (meta plg)) (dependencyTree s)\<rparr>) l)))"
proof -
  have g: "getPlugin E l A False = (Inr (Some plg), l)"
    using getPlugin_cases(3) [OF resolve_cached [OF c, of E] refl nl, of False] imp
    by (simp add: importPlugin_def)
  show ?thesis using h by (simp add: finishLoad_def g Let_def)
qed

subsection \<open>The cascade, dependant by dependant\<close>

lemma cascadeAll_append:
  "cascadeAll E u l (xs @ ys) =
     (fst (cascadeAll E u l xs) @ fst (cascadeAll E u (snd (cascadeAll E u l xs)) ys),
      snd (cascadeAll E u (snd (cascadeAll E u l xs)) ys))"
  by (induction xs arbitrary: l) (simp_all add: case_prod_beta)

lemma stoppedListener_loader:
  assumes "map_of (dependencyTree (this l)) filename = Some dependants"
  shows "snd (stoppedListener E l filename) =
     (if \<not> isPluginLoaded l filename True \<and>
         firstError (fst (cascadeAll E (\<not> isPluginLoaded l filename True) l dependants)) = None
      then updThis (\<lambda>s. s\<lparr>dependencyTree := AList.delete filename (dependencyTree s)\<rparr>)
             (snd (cascadeAll E (\<not> isPluginLoaded l filename True) l dependants))
      else snd (cascadeAll E (\<not> isPluginLoaded l filename True) l dependants))"
  using assms by (simp add: stoppedListener_def Let_def case_prod_beta split: option.splits)

lemma cascadeAll_around:
  "snd (cascadeAll E u l (before @ entry # after)) =
     snd (cascadeAll E u (snd (cascadeDependant E u (snd (cascadeAll E u l before)) entry)) after)"
  by (simp add: cascadeAll_append case_prod_beta)

lemma loadedListener_char:
  "tasks (this (loadedListener E l)) =
     tasks (this l) @
     map (\<lambda>e. ResumeLoad (resumes e) (resumeTarget e))
       (filter (\<lambda>e. pending e \<and> fst (allDependenciesSatisfied E l (plugin e)) = Inr True)
          (loadingQueue (this l)))"
  "dependencyTree (this (loadedListener E l)) = dependencyTree (this l)"
  "loadedPlugins (this (loadedListener E l)) = loadedPlugins (this l)"
  "startedPlugins (this (loadedListener E l)) = startedPlugins (this l)"
  using reevaluate_char [of E "loadingQueue (this l)" l]
  by (simp_all add: loadedListener_def case_prod_beta)

lemma cascade_untouched:
  assumes "fst (getPluginInfo E l A False) = Inr pInfo"
    and "stayLoadedOnDependencyLoss pInfo \<or> \<not> requiredStateLost st isUnloaded"
  shows "fst (cascadeDependant E isUnloaded l (A, st)) = None \<and>
         loadedPlugins (this (snd (cascadeDependant E isUnloaded l (A, st)))) = loadedPlugins (this l) \<and>
         startedPlugins (this (snd (cascadeDependant E isUnloaded l (A, st)))) = startedPlugins (this l) \<and>
         dependencyTree (this (snd (cascadeDependant E isUnloaded l (A, st)))) = dependencyTree (this l) \<and>
         loadingQueue (this (snd (cascadeDependant E isUnloaded l (A, st)))) = loadingQueue (this l) \<and>
         tasks (this (snd (cascadeDependant E isUnloaded l (A, st)))) = tasks (this l)"
proof -
  obtain l1 where g: "getPluginInfo E l A False = (Inr pInfo, l1)"
    using assms(1) by (cases "getPluginInfo E l A False") simp
  have gr: "cacheGrows l l1" using getPluginInfo_grows [of l E A False] g by simp
  have "cascadeDependant E isUnloaded l (A, st) = (None, l1)"
    using assms(2) by (auto simp: cascadeDependant_def g Let_def requiredStateLost_def)
  then show ?thesis by (simp add: cacheGrows_fields [OF gr])
qed

lemma getPluginInfo_cached_snd:
  assumes c: "cachedAs l A A"
  shows "snd (getPluginInfo E l A False) = l"
proof (cases "map_of (loadedPlugins (this l)) A")
  case None
  have "getPlugin E l A False = importPlugin E l A"
    using getPlugin_cases(3) [OF resolve_cached [OF c, of E] refl None, of False] by simp
  then show ?thesis by (simp add: getPluginInfo_snd)
next
  case (Some plg)
  show ?thesis by (simp add: getPluginInfo_cached_loaded [OF c Some])
qed

lemma delete_absent: "A \<notin> set (map fst xs) \<Longrightarrow> AList.delete A xs = xs"
  by (induction xs) (auto simp: AList.delete_eq)

lemma tornDown_absent:
  assumes "A \<notin> set (map fst (loadedPlugins (this l)))"
    and "A \<notin> set (map fst (startedPlugins (this l)))"
  shows "tornDown A l = l"
  using assms by (cases l) (simp add: tornDown_def updThis_def delete_absent)

lemma tornDown_loaded:
  assumes "A \<in> set (map fst (loadedPlugins (this l)))"
  shows "schedule (EmitUnloaded A)
     (updThis (\<lambda>s. s\<lparr>loadedPlugins := AList.delete A (loadedPlugins s)\<rparr>)
        (if A \<in> set (map fst (startedPlugins (this l)))
         then schedule (EmitStopped A)
                (updThis (\<lambda>s. s\<lparr>startedPlugins := AList.delete A (startedPlugins s)\<rparr>) l)
         else l)) = tornDown A l"
  using assms by (cases l) (auto simp: tornDown_def schedule_def updThis_def delete_absent)

lemma tornDown_fields:
  "loadedPlugins (this (tornDown A l)) = AList.delete A (loadedPlugins (this l))"
  "startedPlugins (this (tornDown A l)) = AList.delete A (startedPlugins (this l))"
  "tasks (this (tornDown A l)) =
     tasks (this l) @
     (if A \<in> set (map fst (startedPlugins (this l))) then [EmitStopped A] else []) @
     (if A \<in> set (map fst (loadedPlugins (this l))) then [EmitUnloaded A] else [])"
  "loadingQueue (this (tornDown A l)) = loadingQueue (this l)"
  "dependencyTree (this (tornDown A l)) = dependencyTree (this l)"
  "resolverTable (this (tornDown A l)) = resolverTable (this l)"
  "parent (tornDown A l) = parent l"
  by (simp_all add: tornDown_def)

lemma cascade_teardown:
  assumes c: "cachedAs l A A"
    and info: "fst (getPluginInfo E l A False) = Inr pInfo"
    and stay: "\<not> stayLoadedOnDependencyLoss pInfo"
    and lost: "requiredStateLost st isUnloaded"
    and oml: "onlyMatch A (map fst (loadedPlugins (this l)))"
    and oms: "onlyMatch A (map fst (startedPlugins (this l)))"
    and inv: "A \<in> set (map fst (startedPlugins (this l))) \<longrightarrow> A \<in> set (map fst (loadedPlugins (this l)))"
    and hooks: "teardownHooksReturn A l"
  shows "cascadeDependant E isUnloaded l (A, st) =
     (None,
      schedule (SubmittedLoad A
                  (Some (if A \<in> set (map fst (startedPlugins (this l))) then Started else Loaded)))
        (tornDown A l))"
proof -
  let ?started = "A \<in> set (map fst (startedPlugins (this l)))"
  let ?loaded = "A \<in> set (map fst (loadedPlugins (this l)))"
  have ne: "A \<noteq> []" using c by (rule cachedAs_nonempty)
  have g: "getPluginInfo E l A False = (Inr pInfo, l)"
    using info getPluginInfo_cached_snd [OF c, of E] by (simp add: prod_eq_iff)
  have wasLoaded: "isPluginLoaded l A False \<longleftrightarrow> ?loaded"
    using oml ne by (rule isPluginLoaded_exact)
  have wasStarted: "isPluginStarted l A False \<longleftrightarrow> ?started"
    using oms ne by (rule isPluginStarted_exact)
  show ?thesis
  proof (cases ?loaded)
    case False
    then have ns: "\<not> ?started" using inv by blast
    show ?thesis
      using stay lost False ns
      by (simp add: cascadeDependant_def g Let_def requiredStateLost_def wasStarted wasLoaded
          tornDown_absent)
  next
    case True
    then obtain plg where ld: "map_of (loadedPlugins (this l)) A = Some plg"
      using map_of_eq_None_iff [of "loadedPlugins (this l)" A] by fastforce
    have hs: "?started \<longrightarrow> stop plg \<noteq> Some Throws" and hu: "unload plg \<noteq> Some Throws"
      using hooks by (simp_all add: teardownHooksReturn_def ld)
    define l2 where "l2 = (if ?started
       then schedule (EmitStopped A)
              (updThis (\<lambda>s. s\<lparr>startedPlugins := AList.delete A (startedPlugins s)\<rparr>) l)
       else l)"
    have stopped: "(if isPluginStarted l A False then stopPlugin E l A else (Inr (), l)) = (Inr (), l2)"
      using stopPlugin_exact [OF c ld oms, of E] hs by (simp add: wasStarted l2_def)
    have c2: "cachedAs l2 A A" using c by (simp add: l2_def cachedAs_updThis)
    have ld2: "map_of (loadedPlugins (this l2)) A = Some plg" using ld by (simp add: l2_def)
    have oms2: "onlyMatch A (map fst (startedPlugins (this l2)))"
      using oms by (simp add: l2_def onlyMatch_delete)
    have ns2: "A \<notin> set (map fst (startedPlugins (this l2)))"
      using not_in_delete [of A "startedPlugins (this l)"] by (simp add: l2_def)
    have unloaded: "unloadPlugin E l2 A = (Inr (), tornDown A l)"
      using unloadPlugin_exact [OF c2 ld2 oms2 ns2 hu, of E] tornDown_loaded [OF True]
      by (simp add: l2_def)
    show ?thesis
      using stay lost stopped unloaded True
      by (simp add: cascadeDependant_def g Let_def requiredStateLost_def wasStarted wasLoaded)
  qed
qed

lemma cascade_teardown_fields:
  assumes c: "cachedAs l A A"
    and info: "fst (getPluginInfo E l A False) = Inr pInfo"
    and stay: "\<not> stayLoadedOnDependencyLoss pInfo"
    and lost: "requiredStateLost st isUnloaded"
    and oml: "onlyMatch A (map fst (loadedPlugins (this l)))"
    and oms: "onlyMatch A (map fst (startedPlugins (this l)))"
    and inv: "A \<in> set (map fst (startedPlugins (this l))) \<longrightarrow> A \<in> set (map fst (loadedPlugins (this l)))"
    and hooks: "teardownHooksReturn A l"
  shows "fst (cascadeDependant E isUnloaded l (A, st)) = None \<and>
         loadedPlugins (this (snd (cascadeDependant E isUnloaded l (A, st)))) =
           AList.delete A (loadedPlugins (this l)) \<and>
         startedPlugins (this (snd (cascadeDependant E isUnloaded l (A, st)))) =
           AList.delete A (startedPlugins (this l)) \<and>
         tasks (this (snd (cascadeDependant E isUnloaded l (A, st)))) =
           tasks (this l) @
           (if A \<in> set (map fst (startedPlugins (this l))) then [EmitStopped A] else []) @
           (if A \<in> set (map fst (loadedPlugins (this l))) then [EmitUnloaded A] else []) @
           [SubmittedLoad A
              (Some (if A \<in> set (map fst (startedPlugins (this l))) then Started else Loaded))] \<and>
         loadingQueue (this (snd (cascadeDependant E isUnloaded l (A, st)))) = loadingQueue (this l) \<and>
         dependencyTree (this (snd (cascadeDependant E isUnloaded l (A, st)))) = dependencyTree (this l)"
  by (simp add: cascade_teardown [OF assms] tornDown_fields schedule_def)

lemma not_reported_loaded:
  assumes "\<not> isPluginLoaded l A i" and "A \<noteq> []"
  shows "map_of (loadedPlugins (this l)) A = None"
  using assms isPluginLoaded_key [of A l i] map_of_eq_None_iff [of "loadedPlugins (this l)" A]
  by auto

lemma submitted_load_suspends:
  assumes c: "cachedAs l A A" and nl: "\<not> isPluginLoaded l A True"
    and u: "fst (allDependenciesSatisfied E l A) = Inr False"
  shows "loadingQueue (this (runTask E l (SubmittedLoad A targetState))) =
           loadingQueue (this l) @
           [\<lparr>plugin = A, resumes = A, resumeTarget = targetState, pending = True\<rparr>] \<and>
         loadedPlugins (this (runTask E l (SubmittedLoad A targetState))) = loadedPlugins (this l) \<and>
         startedPlugins (this (runTask E l (SubmittedLoad A targetState))) = startedPlugins (this l) \<and>
         dependencyTree (this (runTask E l (SubmittedLoad A targetState))) = dependencyTree (this l) \<and>
         tasks (this (runTask E l (SubmittedLoad A targetState))) = tasks (this l)"
  using cacheGrows_fields [OF allDependenciesSatisfied_grows [of l E A]]
  by (simp add: runTask_def loadPlugin_suspends [OF c nl u])

lemma submitted_load_completes:
  assumes c: "cachedAs l A A" and nl: "\<not> isPluginLoaded l A True"
    and u: "fst (allDependenciesSatisfied E l A) = Inr True"
    and imp: "importModule E (pluginDir (this l)) A = Module plg"
    and h: "load plg \<noteq> Some Throws"
  shows "loadedPlugins (this (runTask E l (SubmittedLoad A targetState))) =
           AList.update A plg (loadedPlugins (this l)) \<and>
         startedPlugins (this (runTask E l (SubmittedLoad A targetState))) = startedPlugins (this l) \<and>
         dependencyTree (this (runTask E l (SubmittedLoad A targetState))) =
           registerDependencies A (pluginDependencies (meta plg)) (dependencyTree (this l)) \<and>
         loadingQueue (this (runTask E l (SubmittedLoad A targetState))) = loadingQueue (this l) \<and>
         tasks (this (runTask E l (SubmittedLoad A targetState))) =
           tasks (this l) @ [EmitLoaded A targetState]"
proof -
  obtain l2 where a: "allDependenciesSatisfied E l A = (Inr True, l2)"
    using u by (cases "allDependenciesSatisfied E l A") simp
  have g: "cacheGrows l l2" using allDependenciesSatisfied_grows [of l E A] a by simp
  note f = cacheGrows_fields [OF g]
  have c2: "cachedAs l2 A A" using c g by (simp add: cacheGrows_def cacheKept_def)
  have none: "map_of (loadedPlugins (this l2)) A = None"
    using not_reported_loaded [OF nl cachedAs_nonempty [OF c]] by (simp add: f)
  have imp2: "importModule E (pluginDir (this l2)) A = Module plg" using imp by (simp add: f)
  have "loadPlugin E l A targetState = finishLoad E l2 A targetState"
    using nl by (simp add: loadPlugin_def resolve_cached [OF c] a)
  then show ?thesis
    by (simp add: runTask_def finishLoad_exact [OF c2 none imp2 h] f)
qed

lemma resume_scheduled:
  assumes "e \<in> set (loadingQueue (this l))" and "pending e"
    and "fst (allDependenciesSatisfied E l (plugin e)) = Inr True"
  shows "ResumeLoad (resumes e) (resumeTarget e) \<in> set (tasks (this (loadedListener E l)))"
  using assms by (simp add: loadedListener_char)

lemma resumed_load:
  assumes "cachedAs l A A" and "map_of (loadedPlugins (this l)) A = None"
    and "importModule E (pluginDir (this l)) A = Module plg" and "load plg \<noteq> Some Throws"
  shows "loadedPlugins (this (runTask E l (ResumeLoad A targetState))) =
           AList.update A plg (loadedPlugins (this l)) \<and>
         startedPlugins (this (runTask E l (ResumeLoad A targetState))) = startedPlugins (this l) \<and>
         dependencyTree (this (runTask E l (ResumeLoad A targetState))) =
           registerDependencies A (pluginDependencies (meta plg)) (dependencyTree (this l)) \<and>
         tasks (this (runTask E l (ResumeLoad A targetState))) =
           tasks (this l) @ [EmitLoaded A targetState]"
  by (simp add: runTask_def finishLoad_exact [OF assms])

lemma start_after_load:
  assumes c: "cachedAs l A A" and ld: "map_of (loadedPlugins (this l)) A = Some plg"
    and ns: "\<not> isPluginStarted l A False" and h: "start plg \<noteq> Some Throws"
  shows "startedPlugins (this (runTask E l (EmitLoaded A (Some Started)))) =
           AList.update A plg (startedPlugins (this l)) \<and>
         loadedPlugins (this (runTask E l (EmitLoaded A (Some Started)))) = loadedPlugins (this l) \<and>
         startedPlugins (this (runTask E l (EmitLoaded A (Some Loaded)))) = startedPlugins (this l) \<and>
         loadedPlugins (this (runTask E l (EmitLoaded A (Some Loaded)))) = loadedPlugins (this l)"
proof -
  define l1 where "l1 = loadedListener E l"
  have c1: "cachedAs l1 A A"
    using c loadedListener_kept [of l E] by (simp add: l1_def cacheKept_def)
  have f1: "loadedPlugins (this l1) = loadedPlugins (this l)" "startedPlugins (this l1) = startedPlugins (this l)"
    by (simp_all add: l1_def loadedListener_char)
  have ld1: "map_of (loadedPlugins (this l1)) A = Some plg" using ld by (simp add: f1)
  have ns1: "\<not> isPluginStarted l1 A False" using ns by (simp add: isPluginStarted_local f1)
  show ?thesis
    using f1 by (simp add: runTask_def emit_def Let_def l1_def [symmetric]
        startPlugin_exact [OF c1 ld1 ns1 h])
qed

subsection \<open>The version test\<close>

text \<open>A load that reaches the version test with a meta block whose range the loader's
  API version does not satisfy fails with \<open>ApiVersionMismatchError\<close> and leaves the
  loaded plugins, the started plugins, the dependency tree, the queue and the deferred
  work as they were.\<close>

lemma version_test_refuses:
  assumes res: "fst (resolvePluginFilename E l fileID) = Inr resolved"
      and notLoaded: "\<not> isPluginLoaded l resolved True"
      and info: "fst (getPluginInfo E (snd (resolvePluginFilename E l fileID)) resolved True) = Inr pluginInfo"
      and mismatch: "\<not> satisfies E (loaderApiVersion (this l)) (apiVersion pluginInfo)"
  shows "fst (loadPlugin E l fileID targetState) = Inl (ApiVersionMismatchError resolved) \<and>
         loadedPlugins (this (snd (loadPlugin E l fileID targetState))) = loadedPlugins (this l) \<and>
         startedPlugins (this (snd (loadPlugin E l fileID targetState))) = startedPlugins (this l) \<and>
         dependencyTree (this (snd (loadPlugin E l fileID targetState))) = dependencyTree (this l) \<and>
         loadingQueue (this (snd (loadPlugin E l fileID targetState))) = loadingQueue (this l) \<and>
         tasks (this (snd (loadPlugin E l fileID targetState))) = tasks (this l) \<and>
         resolved \<notin> set (getLoadedPlugins (snd (loadPlugin E l fileID targetState)) False)"
proof -
  define l1 where "l1 = snd (resolvePluginFilename E l fileID)"
  define l2 where "l2 = snd (getPluginInfo E l1 resolved True)"
  have r: "resolvePluginFilename E l fileID = (Inr resolved, l1)"
    using res by (simp add: l1_def prod_eq_iff)
  have g: "getPluginInfo E l1 resolved True = (Inr pluginInfo, l2)"
    using info by (simp add: l1_def l2_def prod_eq_iff)
  have g1: "cacheGrows l l1"
    unfolding l1_def by (rule resolve_grows)
  have g2: "cacheGrows l l2"
    using g1 getPluginInfo_grows [of l1 E resolved True] unfolding l2_def by (rule cacheGrows_trans)
  have nl1: "\<not> isPluginLoaded l1 resolved True"
    using notLoaded by (simp add: isPluginLoaded_local cacheGrows_fields [OF g1])
  have mm: "\<not> satisfies E (loaderApiVersion (this l2)) (apiVersion pluginInfo)"
    using mismatch by (simp add: cacheGrows_fields [OF g2])
  have a: "allDependenciesSatisfied E l1 resolved = (Inl (ApiVersionMismatchError resolved), l2)"
    using mm by (simp add: allDependenciesSatisfied_def g)
  have result: "loadPlugin E l fileID targetState = (Inl (ApiVersionMismatchError resolved), l2)"
    using nl1 by (simp add: loadPlugin_def r a)
  have absent: "resolved \<notin> set (map fst (loadedPlugins (this l)))"
    using notLoaded isPluginLoaded_key [of resolved l True] resolve_result_nonempty [OF res]
    by blast
  show ?thesis
    using absent by (simp add: result cacheGrows_fields [OF g2] getLoadedPlugins_eq)
qed

section \<open>The resolver cache\<close>

text \<open>
  C8, as amended. Once a call of \<open>resolvePluginFilename(id)\<close> has returned file name \<open>f\<close>
  (from the cache, when its listing arrived, or as a call that nothing interleaved
  with), at a moment when no resolution of \<open>id\<close> waits for its listing, every later call
  with the same identifier on the same loader returns \<open>f\<close>, whatever happened in
  between (resolutions of any identifier in their two halves, calls, events and deferred
  work) and whatever the plugin directory lists by then: each step runs in an
  environment of its own. No resolution of \<open>id\<close> waits for a listing ever after. The
  methods that are not modelled (\<open>destroy\<close>, \<open>deleteStorage\<close>, the initial plugin state)
  reach the cache through \<open>resolvePluginFilename\<close> only.
\<close>

theorem resolver_cache_stable:
  assumes "fst (run E st r) = Some (Inr f)"
      and "st = Begin fileID \<or> st = Listed fileID \<or> st = Whole (Resolve fileID)"
      and "fileID \<notin> set (listing (snd (run E st r)))"
  shows "fst (run E' (Whole (Resolve fileID)) (runAll sts (snd (run E st r)))) = Some (Inr f) \<and>
         fst (run E' (Begin fileID) (runAll sts (snd (run E st r)))) = Some (Inr f) \<and>
         fileID \<notin> set (listing (runAll sts (snd (run E st r))))"
proof -
  have "cachedAs (loader (snd (run E st r))) fileID f"
    using assms(1,2) by (rule run_success_cached)
  then have later: "cachedAs (loader (runAll sts (snd (run E st r)))) fileID f \<and>
      fileID \<notin> set (listing (runAll sts (snd (run E st r))))"
    using assms(3) by (rule runAll_keeps)
  then have "cacheHit (loader (runAll sts (snd (run E st r)))) fileID = Some f"
    by (simp add: cacheHit_cachedAs)
  then show ?thesis
    using later by (simp add: run_def resolvePluginFilename_def)
qed

text \<open>On the fresh loader \<open>a\<close> resolves to \<open>a.plugin.js\<close>, in one piece or in two halves.
  After \<open>0a.plugin.js\<close> is added a fresh loader resolves \<open>a\<close> to it, and the first
  loader, which in between resolved other identifiers in two halves, loaded and started
  a plugin and ran its deferred work on the new disk, still answers \<open>a.plugin.js\<close>.\<close>

theorem resolver_cache_stable_witness:
  "fst (run similarNames (Whole (Resolve ''a'')) \<lparr>loader = freshLoader, listing = []\<rparr>)
     = Some (Inr ''a.plugin.js'') \<and>
   ''a'' \<notin> set (listing (snd (run similarNames (Whole (Resolve ''a'')) \<lparr>loader = freshLoader, listing = []\<rparr>))) \<and>
   fst (resolvePluginFilename fileAdded freshLoader ''a'') = Inr ''0a.plugin.js'' \<and>
   fst (run fileAdded (Whole (Resolve ''a''))
          (runAll
             [(fileAdded, Begin ''aa''), (fileAdded, Whole (LoadPlugin ''0a'' (Some Started))),
              (fileAdded, Whole NextTask), (fileAdded, Listed ''aa''), (fileAdded, Whole NextTask),
              (fileAdded, Begin ''a'')]
             (snd (run similarNames (Whole (Resolve ''a'')) \<lparr>loader = freshLoader, listing = []\<rparr>))))
     = Some (Inr ''a.plugin.js'') \<and>
   fst (run similarNames (Listed ''a'')
          (snd (run similarNames (Begin ''a'') \<lparr>loader = freshLoader, listing = []\<rparr>)))
     = Some (Inr ''a.plugin.js'') \<and>
   ''a'' \<notin> set (listing (snd (run similarNames (Listed ''a'')
          (snd (run similarNames (Begin ''a'') \<lparr>loader = freshLoader, listing = []\<rparr>))))) \<and>
   fst (run fileAdded (Begin ''a'')
          (runAll [(fileAdded, Begin ''0''), (fileAdded, Listed ''0'')]
             (snd (run similarNames (Listed ''a'')
                (snd (run similarNames (Begin ''a'') \<lparr>loader = freshLoader, listing = []\<rparr>))))))
     = Some (Inr ''a.plugin.js'')"
proof -
  let ?r0 = "\<lparr>loader = freshLoader, listing = []\<rparr>"
  let ?r1 = "snd (run similarNames (Begin ''a'') ?r0)"
  have h1: "fst (run similarNames (Whole (Resolve ''a'')) ?r0) = Some (Inr ''a.plugin.js'')"
    by code_simp
  have h2: "''a'' \<notin> set (listing (snd (run similarNames (Whole (Resolve ''a'')) ?r0)))"
    by code_simp
  have other: "fst (resolvePluginFilename fileAdded freshLoader ''a'') = Inr ''0a.plugin.js''"
    by code_simp
  have k1: "fst (run similarNames (Listed ''a'') ?r1) = Some (Inr ''a.plugin.js'')"
    by code_simp
  have k2: "''a'' \<notin> set (listing (snd (run similarNames (Listed ''a'') ?r1)))"
    by code_simp
  note whole = resolver_cache_stable
    [where E = similarNames and st = "Whole (Resolve ''a'')" and r = ?r0 and f = "''a.plugin.js''"
       and fileID = "''a''" and E' = fileAdded
       and sts = "[(fileAdded, Begin ''aa''), (fileAdded, Whole (LoadPlugin ''0a'' (Some Started))),
        (fileAdded, Whole NextTask), (fileAdded, Listed ''aa''), (fileAdded, Whole NextTask),
        (fileAdded, Begin ''a'')]"]
  note halves = resolver_cache_stable
    [where E = similarNames and st = "Listed ''a''" and r = ?r1 and f = "''a.plugin.js''"
       and fileID = "''a''" and E' = fileAdded
       and sts = "[(fileAdded, Begin ''0''), (fileAdded, Listed ''0'')]"]
  from whole h1 h2 have later: "fst (run fileAdded (Whole (Resolve ''a''))
          (runAll
             [(fileAdded, Begin ''aa''), (fileAdded, Whole (LoadPlugin ''0a'' (Some Started))),
              (fileAdded, Whole NextTask), (fileAdded, Listed ''aa''), (fileAdded, Whole NextTask),
              (fileAdded, Begin ''a'')]
             (snd (run similarNames (Whole (Resolve ''a'')) ?r0))))
     = Some (Inr ''a.plugin.js'')"
    by blast
  from halves k1 k2 have later2: "fst (run fileAdded (Begin ''a'')
          (runAll [(fileAdded, Begin ''0''), (fileAdded, Listed ''0'')]
             (snd (run similarNames (Listed ''a'') ?r1))))
     = Some (Inr ''a.plugin.js'')"
    by blast
  from h1 h2 other k1 k2 later later2 show ?thesis by blast
qed

text \<open>
  C8 as stated fails when two resolutions of one identifier overlap. Both miss the
  cache and wait for their listing. The listing of the first, read before
  \<open>0a.plugin.js\<close> was added, makes that call return \<open>a.plugin.js\<close>; the listing of the
  second, read after, is written over the cached name, and every later call returns
  \<open>0a.plugin.js\<close>.
\<close>

theorem overlapping_resolutions_overwrite:
  "listing bothListing = [''a'', ''a''] \<and>
   fst (run similarNames (Listed ''a'') bothListing) = Some (Inr ''a.plugin.js'') \<and>
   fst (run fileAdded (Listed ''a'') firstListed) = Some (Inr ''0a.plugin.js'') \<and>
   listing secondListed = [] \<and>
   fst (run fileAdded (Whole (Resolve ''a'')) secondListed) = Some (Inr ''0a.plugin.js'') \<and>
   fst (run similarNames (Whole (Resolve ''a'')) secondListed) = Some (Inr ''0a.plugin.js'')"
  by code_simp

section \<open>Resolving the empty identifier\<close>

text \<open>
  C10, as amended. \<open>resolvePluginFilename("")\<close> never fails with \<open>InvalidPluginError\<close>.
  When no name is cached for the empty identifier, it returns the first listed plugin
  file and caches it under the empty identifier, or fails with \<open>FileNotFoundError\<close> when
  no plugin file is listed; when a name is cached, it returns that name whatever the
  directory lists. \<open>FileNotFoundError\<close> arises only when no plugin file is listed.
\<close>

theorem resolve_empty_identifier:
  "fst (resolvePluginFilename E l []) \<noteq> Inl InvalidPluginError \<and>
   (resolverTable (this l) [] = None \<longrightarrow>
      resolvePluginFilename E l [] =
        (case listPlugins E l False of
           [] \<Rightarrow> (Inl (FileNotFoundError []), l)
         | f # fs \<Rightarrow> (Inr f, updThis (\<lambda>s. s\<lparr>resolverTable := (resolverTable s)([] \<mapsto> f)\<rparr>) l))) \<and>
   (cachedAs l [] c \<longrightarrow> resolvePluginFilename E l [] = (Inr c, l)) \<and>
   (fst (resolvePluginFilename E l []) = Inl (FileNotFoundError []) \<longrightarrow> listPlugins E l False = [])"
  using resolve_no_InvalidPluginError resolve_empty_miss resolve_cached resolve_empty_FileNotFound
  by blast

text \<open>The three hypotheses, each at an input that meets it: the fresh loader (nothing
  cached), the loader that has cached the empty identifier, and the empty disk.\<close>

theorem resolve_empty_identifier_witness:
  "resolverTable (this freshLoader) [] = None \<and>
   resolvePluginFilename similarNames freshLoader [] =
     (Inr ''a.plugin.js'', updThis (\<lambda>s. s\<lparr>resolverTable := (resolverTable s)([] \<mapsto> ''a.plugin.js'')\<rparr>) freshLoader) \<and>
   cachedAs emptyCached [] ''a.plugin.js'' \<and>
   resolvePluginFilename fileAdded emptyCached [] = (Inr ''a.plugin.js'', emptyCached) \<and>
   fst (resolvePluginFilename emptyDisk freshLoader []) = Inl (FileNotFoundError []) \<and>
   listPlugins emptyDisk freshLoader False = []"
proof -
  have miss: "resolverTable (this freshLoader) [] = None"
    by (simp add: freshLoader_def newLoader_def)
  have files: "listPlugins similarNames freshLoader False = [''a.plugin.js'', ''aa.plugin.js'']"
    by code_simp
  have hit: "cachedAs emptyCached [] ''a.plugin.js''"
    by code_simp
  have none: "fst (resolvePluginFilename emptyDisk freshLoader []) = Inl (FileNotFoundError [])"
    by code_simp
  from resolve_empty_identifier [of similarNames freshLoader] miss files
  have first: "resolvePluginFilename similarNames freshLoader [] =
     (Inr ''a.plugin.js'', updThis (\<lambda>s. s\<lparr>resolverTable := (resolverTable s)([] \<mapsto> ''a.plugin.js'')\<rparr>) freshLoader)"
    by simp
  from resolve_empty_identifier [of fileAdded emptyCached "''a.plugin.js''"] hit
  have second: "resolvePluginFilename fileAdded emptyCached [] = (Inr ''a.plugin.js'', emptyCached)"
    by blast
  from resolve_empty_identifier [of emptyDisk freshLoader] none
  have third: "listPlugins emptyDisk freshLoader False = []"
    by blast
  from miss first hit second none third show ?thesis by blast
qed

text \<open>C10 as stated fails once the empty identifier is cached: the directory lists
  \<open>0a.plugin.js\<close> first, and the call returns \<open>a.plugin.js\<close>.\<close>

theorem cached_empty_identifier_not_first_listed:
  "listPlugins fileAdded emptyCached False = [''0a.plugin.js'', ''a.plugin.js'', ''aa.plugin.js''] \<and>
   fst (resolvePluginFilename fileAdded emptyCached []) = Inr ''a.plugin.js''"
  by code_simp

section \<open>The cascade handler and a file name without entry\<close>

text \<open>
  C9. When a \<open>pluginStopped\<close> or \<open>pluginUnloaded\<close> event names a file that has no entry
  in the dependency tree, the handler does not end as a no-op: \<open>Object.entries\<close> of the
  missing entry raises a \<open>TypeError\<close>, nothing after it runs, and the loader (its
  dependency tree included) is as before.
\<close>

theorem cascade_without_entry_raises:
  assumes "map_of (dependencyTree (this l)) filename = None"
  shows "stoppedListener E l filename = (Inl TypeError, l) \<and>
         unloadedListener E l filename = (Inl TypeError, l)"
  using assms by (simp add: stoppedListener_def unloadedListener_def)

text \<open>The scenario of the specification: A declares \<open>{B: "started"}\<close>, both run, B is
  stopped. The tree holds the edge under \<open>B\<close>, the event names \<open>B.plugin.js\<close>.\<close>

theorem cascade_without_entry_raises_witness:
  "map_of (dependencyTree (this (afterStopB (dependsOn ''B'' Started False)))) ''B.plugin.js'' = None \<and>
   stoppedListener (dependsOn ''B'' Started False) (afterStopB (dependsOn ''B'' Started False))
      ''B.plugin.js''
     = (Inl TypeError, afterStopB (dependsOn ''B'' Started False)) \<and>
   unloadedListener (dependsOn ''B'' Started False) (afterStopB (dependsOn ''B'' Started False))
      ''B.plugin.js''
     = (Inl TypeError, afterStopB (dependsOn ''B'' Started False))"
proof -
  have h: "map_of (dependencyTree (this (afterStopB (dependsOn ''B'' Started False))))
             ''B.plugin.js'' = None"
    by code_simp
  from cascade_without_entry_raises [OF h] h show ?thesis by simp
qed

section \<open>The stop entry of the management surface\<close>

text \<open>
  C7. The claim is that \<open>stop\<close> of the management surface does what \<open>stopPlugin\<close> does.
  The code calls \<open>loadPlugin\<close> there. With B loaded and started, \<open>stopPlugin("B")\<close>
  succeeds and takes B out of the started plugins, while the surface's \<open>stop("B")\<close> fails
  with \<open>PluginAlreadyLoadedError\<close> and B stays started.
\<close>

theorem PM2API_stop_loads_instead:
  "fst (PM2API_stop (dependsOn ''B'' Started False) (bothStarted (dependsOn ''B'' Started False)) ''B'')
     = Inl (PluginAlreadyLoadedError ''B.plugin.js'') \<and>
   getStartedPlugins
     (snd (PM2API_stop (dependsOn ''B'' Started False) (bothStarted (dependsOn ''B'' Started False)) ''B''))
     False = [''B.plugin.js'', ''A.plugin.js''] \<and>
   fst (stopPlugin (dependsOn ''B'' Started False) (bothStarted (dependsOn ''B'' Started False)) ''B'')
     = Inr () \<and>
   getStartedPlugins
     (snd (stopPlugin (dependsOn ''B'' Started False) (bothStarted (dependsOn ''B'' Started False)) ''B''))
     False = [''A.plugin.js'']"
  by code_simp

section \<open>Started plugins and loaded plugins\<close>

text \<open>
  C3. The claim is that every started file name is a loaded file name in every reachable
  state. \<open>startPlugin\<close> guards with \<open>isPluginLoaded\<close>, which looks for a loaded name that
  contains the given one. With \<open>aa.plugin.js\<close> loaded, \<open>startPlugin("a.plugin.js")\<close>
  completes, and \<open>a.plugin.js\<close> is started without being loaded.
\<close>

theorem started_without_loaded:
  "fst (loadPlugin similarNames freshLoader ''aa.plugin.js'' None) = Inr LoadCompleted \<and>
   fst (startPlugin similarNames onlyAALoaded ''a.plugin.js'') = Inr () \<and>
   map fst (startedPlugins (this (snd (startPlugin similarNames onlyAALoaded ''a.plugin.js''))))
     = [''a.plugin.js''] \<and>
   map fst (loadedPlugins (this (snd (startPlugin similarNames onlyAALoaded ''a.plugin.js''))))
     = [''aa.plugin.js'']"
  by code_simp

section \<open>The errors of the lifecycle operations\<close>

text \<open>
  C4. The claim lists the error of each operation in each wrong state. With only
  \<open>aa.plugin.js\<close> loaded, \<open>a.plugin.js\<close> is not loaded, and yet \<open>startPlugin\<close> completes,
  \<open>stopPlugin\<close> fails with \<open>PluginNotStartedError\<close> and \<open>unloadPlugin\<close> completes, where
  the claim has \<open>PluginNotLoadedError\<close> three times; and \<open>loadPlugin\<close> fails with
  \<open>PluginAlreadyLoadedError\<close>.
\<close>

theorem not_loaded_yet_no_error:
  "map fst (loadedPlugins (this onlyAALoaded)) = [''aa.plugin.js''] \<and>
   fst (resolvePluginFilename similarNames onlyAALoaded ''a.plugin.js'') = Inr ''a.plugin.js'' \<and>
   fst (startPlugin similarNames onlyAALoaded ''a.plugin.js'') = Inr () \<and>
   fst (stopPlugin similarNames onlyAALoaded ''a.plugin.js'')
     = Inl (PluginNotStartedError ''a.plugin.js'') \<and>
   fst (unloadPlugin similarNames onlyAALoaded ''a.plugin.js'') = Inr () \<and>
   fst (loadPlugin similarNames onlyAALoaded ''a.plugin.js'' None)
     = Inl (PluginAlreadyLoadedError ''a.plugin.js'')"
  by code_simp

section \<open>A plugin written for another API version\<close>

text \<open>
  C5. A load of a plugin whose declared \<open>apiVersion\<close> range the loader's API version
  does not satisfy should fail with \<open>ApiVersionMismatchError\<close> and change nothing. The
  version test is there and refuses the plugin of \<open>extra\<close> (it declares \<open>^2.0.0\<close>, the
  loader has \<open>1.0.0\<close>) when the loader has no parent. The test reads the meta block
  with \<open>getPluginInfo(fileID)\<close>, which asks the parent first: under a parent whose
  directory holds a file of the same name that declares \<open>^1.0.0\<close>, the test passes on
  the parent's module and the load completes with the module of \<open>extra\<close>, which is then
  among the loaded plugins; under a parent whose directory does not hold the file the
  load fails with the parent's \<open>FileNotFoundError\<close>. And when a loaded name contains the
  resolved name, the load fails with \<open>PluginAlreadyLoadedError\<close> before the test.
\<close>

theorem api_mismatch_missed_under_parent:
  "\<not> satisfies threeDirectories (loaderApiVersion (this extraUnderPlugins)) ''^2.0.0'' \<and>
   importModule threeDirectories ''extra'' ''C.plugin.js''
     = Module (examplePlugin (exampleMeta ''C'' ''^2.0.0'' [] False)) \<and>
   fst (loadPlugin threeDirectories extraAlone ''C'' None) = Inl (ApiVersionMismatchError ''C.plugin.js'') \<and>
   loadedPlugins (this (snd (loadPlugin threeDirectories extraAlone ''C'' None))) = [] \<and>
   fst (loadPlugin threeDirectories extraUnderPlugins ''C'' None) = Inr LoadCompleted \<and>
   loadedPlugins (this (snd (loadPlugin threeDirectories extraUnderPlugins ''C'' None)))
     = [(''C.plugin.js'', examplePlugin (exampleMeta ''C'' ''^2.0.0'' [] False))] \<and>
   tasks (this (snd (loadPlugin threeDirectories extraUnderPlugins ''C'' None)))
     = [EmitLoaded ''C.plugin.js'' None] \<and>
   fst (loadPlugin threeDirectories extraUnderElsewhere ''C'' None) = Inl (FileNotFoundError ''C.plugin.js'') \<and>
   getLoadedPlugins besideNewerA False = [''aa.plugin.js''] \<and>
   fst (loadPlugin newerA besideNewerA ''a.plugin.js'' None) = Inl (PluginAlreadyLoadedError ''a.plugin.js'')"
  by code_simp

section \<open>Lookups in a child loader\<close>

text \<open>
  C6, as amended. On a loader with or without parent, each of the six lookups called
  with \<open>includeParent = false\<close> answers as the same loader without parent would: it
  covers the local scope only. \<open>getPlugin(id, false)\<close> fails with \<open>FileNotFoundError\<close>
  exactly when the resolver does (no cached name and no file of the loader's own
  directory that matches); for a resolved name that is not loaded locally it returns what
  the import from the loader's own directory gives. \<open>getPlugin(id, true)\<close>, for an
  identifier that resolves locally to a name that is not loaded locally but is loaded in
  the parent (and resolves to itself there), returns the parent's instance. Nothing is
  said of the other five lookups with \<open>includeParent = true\<close>.
\<close>

theorem lookups_and_parent:
  "getLoadedPlugins (PluginLoader3 s par) False = getLoadedPlugins (PluginLoader3 s None) False \<and>
   getStartedPlugins (PluginLoader3 s par) False = getStartedPlugins (PluginLoader3 s None) False \<and>
   isPluginLoaded (PluginLoader3 s par) fileID False = isPluginLoaded (PluginLoader3 s None) fileID False \<and>
   isPluginStarted (PluginLoader3 s par) fileID False = isPluginStarted (PluginLoader3 s None) fileID False \<and>
   listPlugins E (PluginLoader3 s par) False = listPlugins E (PluginLoader3 s None) False \<and>
   fst (getPlugin E (PluginLoader3 s par) fileID False) = fst (getPlugin E (PluginLoader3 s None) fileID False) \<and>
   (fst (getPlugin E (PluginLoader3 s par) fileID False) = Inl (FileNotFoundError x)
      \<longleftrightarrow> fst (resolvePluginFilename E (PluginLoader3 s par) fileID) = Inl (FileNotFoundError x)) \<and>
   (fst (resolvePluginFilename E (PluginLoader3 s par) fileID) = Inr f \<and> map_of (loadedPlugins s) f = None
      \<longrightarrow> fst (getPlugin E (PluginLoader3 s par) fileID False) = fst (importPlugin E (PluginLoader3 s par) f)) \<and>
   (fst (resolvePluginFilename E (PluginLoader3 s par) fileID) = Inr f \<and> map_of (loadedPlugins s) f = None \<and>
    par = Some p \<and> fst (resolvePluginFilename E p f) = Inr f \<and> map_of (loadedPlugins (this p)) f = Some plg
      \<longrightarrow> fst (getPlugin E (PluginLoader3 s par) fileID True) = Inr (Some plg))"
proof -
  let ?l = "PluginLoader3 s par"
  have notFound: "fst (getPlugin E ?l fileID False) = Inl (FileNotFoundError x)
      \<longleftrightarrow> fst (resolvePluginFilename E ?l fileID) = Inl (FileNotFoundError x)"
  proof (cases "fst (resolvePluginFilename E ?l fileID)")
    case (Inl e)
    then show ?thesis
      using getPlugin_unresolved [of E ?l fileID e False] by (simp del: getPlugin.simps)
  next
    case (Inr f')
    show ?thesis
    proof (cases "map_of (loadedPlugins (this ?l)) f'")
      case None
      then show ?thesis
        using Inr getPlugin_not_loaded_local [of E ?l fileID f'] importPlugin_not_FileNotFound
        by (simp del: getPlugin.simps)
    next
      case (Some plg')
      then show ?thesis
        using Inr getPlugin_loaded [of E ?l fileID f' plg' False] by (simp del: getPlugin.simps)
    qed
  qed
  have imported: "fst (resolvePluginFilename E ?l fileID) = Inr f \<and> map_of (loadedPlugins s) f = None
      \<longrightarrow> fst (getPlugin E ?l fileID False) = fst (importPlugin E ?l f)"
    using getPlugin_not_loaded_local [of E ?l fileID f] by (simp del: getPlugin.simps)
  have fromParent: "fst (resolvePluginFilename E ?l fileID) = Inr f \<and> map_of (loadedPlugins s) f = None \<and>
    par = Some p \<and> fst (resolvePluginFilename E p f) = Inr f \<and> map_of (loadedPlugins (this p)) f = Some plg
      \<longrightarrow> fst (getPlugin E ?l fileID True) = Inr (Some plg)"
  proof (intro impI, elim conjE)
    assume r: "fst (resolvePluginFilename E ?l fileID) = Inr f"
      and n: "map_of (loadedPlugins s) f = None"
      and par: "par = Some p"
      and rp: "fst (resolvePluginFilename E p f) = Inr f"
      and lp: "map_of (loadedPlugins (this p)) f = Some plg"
    have "fst (getPlugin E p f True) = Inr (Some plg)"
      using rp lp by (rule getPlugin_loaded)
    then show "fst (getPlugin E ?l fileID True) = Inr (Some plg)"
      using getPlugin_from_parent [of E ?l fileID f p plg] r n par
      by (simp del: getPlugin.simps)
  qed
  show ?thesis
    using notFound imported fromParent getPlugin_local [of E s par fileID]
    by (simp del: getPlugin.simps add: getLoadedPlugins_eq getStartedPlugins_eq isPluginLoaded_local
        isPluginStarted_local listPlugins_eq)
qed

text \<open>
  A child of the loader in which A and B run, after B's file was edited on disk: the
  child gets the parent's instance of B with \<open>includeParent = true\<close>, the edited module
  with \<open>false\<close>, and \<open>FileNotFoundError\<close> for an identifier that matches no file.
\<close>

theorem lookups_and_parent_witness:
  "fst (resolvePluginFilename editedDisk childLoader ''B'') = Inr ''B.plugin.js'' \<and>
   map_of (loadedPlugins (this childLoader)) ''B.plugin.js'' = None \<and>
   parent childLoader = Some (bothStarted (dependsOn ''B'' Started False)) \<and>
   fst (resolvePluginFilename editedDisk (bothStarted (dependsOn ''B'' Started False)) ''B.plugin.js'')
     = Inr ''B.plugin.js'' \<and>
   map_of (loadedPlugins (this (bothStarted (dependsOn ''B'' Started False)))) ''B.plugin.js''
     = Some (examplePlugin (exampleMeta ''B'' ''^1.0.0'' [] False)) \<and>
   fst (getPlugin editedDisk childLoader ''B'' True)
     = Inr (Some (examplePlugin (exampleMeta ''B'' ''^1.0.0'' [] False))) \<and>
   fst (getPlugin editedDisk childLoader ''B'' False)
     = fst (importPlugin editedDisk childLoader ''B.plugin.js'') \<and>
   fst (importPlugin editedDisk childLoader ''B.plugin.js'')
     = Inr (Some (examplePlugin (exampleMeta ''B, edited'' ''^1.0.0'' [] False))) \<and>
   fst (resolvePluginFilename editedDisk childLoader ''nowhere'') = Inl (FileNotFoundError ''nowhere'') \<and>
   fst (getPlugin editedDisk childLoader ''nowhere'' False) = Inl (FileNotFoundError ''nowhere'')"
proof -
  let ?par = "bothStarted (dependsOn ''B'' Started False)"
  have c: "childLoader = PluginLoader3 (this childLoader) (Some ?par)"
    by (simp add: childLoader_def newLoader_def)
  have h1: "fst (resolvePluginFilename editedDisk (PluginLoader3 (this childLoader) (Some ?par)) ''B'')
      = Inr ''B.plugin.js''"
    unfolding c [symmetric] by code_simp
  have h2: "map_of (loadedPlugins (this childLoader)) ''B.plugin.js'' = None"
    by code_simp
  have h3: "fst (resolvePluginFilename editedDisk ?par ''B.plugin.js'') = Inr ''B.plugin.js''"
    by code_simp
  have h4: "map_of (loadedPlugins (this ?par)) ''B.plugin.js''
      = Some (examplePlugin (exampleMeta ''B'' ''^1.0.0'' [] False))"
    by code_simp
  have h5: "fst (importPlugin editedDisk childLoader ''B.plugin.js'')
      = Inr (Some (examplePlugin (exampleMeta ''B, edited'' ''^1.0.0'' [] False)))"
    by code_simp
  have h6: "fst (resolvePluginFilename editedDisk (PluginLoader3 (this childLoader) (Some ?par)) ''nowhere'')
      = Inl (FileNotFoundError ''nowhere'')"
    unfolding c [symmetric] by code_simp
  have p: "parent childLoader = Some ?par"
    by (simp add: childLoader_def newLoader_def)
  note t1 = lookups_and_parent [of "this childLoader" "Some ?par" "''B''" editedDisk _ "''B.plugin.js''"
      ?par "examplePlugin (exampleMeta ''B'' ''^1.0.0'' [] False)", folded c]
  note t2 = lookups_and_parent [of "this childLoader" "Some ?par" "''nowhere''" editedDisk "''nowhere''",
      folded c]
  from t1 h1 h2 h3 h4 have fromParent: "fst (getPlugin editedDisk childLoader ''B'' True)
     = Inr (Some (examplePlugin (exampleMeta ''B'' ''^1.0.0'' [] False)))"
    unfolding c [symmetric] by blast
  from t1 h1 h2 have fromDisk: "fst (getPlugin editedDisk childLoader ''B'' False)
     = fst (importPlugin editedDisk childLoader ''B.plugin.js'')"
    unfolding c [symmetric] by blast
  from t2 h6 have missing: "fst (getPlugin editedDisk childLoader ''nowhere'' False)
      = Inl (FileNotFoundError ''nowhere'')"
    unfolding c [symmetric] by blast
  from h1 h2 p h3 h4 h5 h6 fromParent fromDisk missing show ?thesis
    unfolding c [symmetric] by blast
qed

text \<open>
  C6 as stated fails in three ways that the slip with \<open>Array.prototype.concat\<close> has no
  part in. In the child above B is not loaded locally and \<open>getPlugin("B", false)\<close>
  returns the module imported from the child's own directory instead of failing. In a
  child whose own directory does not hold B, \<open>getPlugin("B", true)\<close> fails with
  \<open>FileNotFoundError\<close> although the parent has B loaded and returns it when asked itself:
  the identifier is resolved in the child's own directory before the parent is asked. And
  in a child whose parent has a plugin loaded under \<open>a.plugin.js\<close> but resolves that
  name to \<open>aa.plugin.js\<close>, which it has cached, \<open>getPlugin("a", true)\<close> returns the module
  that the parent imports for \<open>aa.plugin.js\<close>, not the parent's instance.
\<close>

theorem getPlugin_resolves_locally_first:
  "map_of (loadedPlugins (this childLoader)) ''B.plugin.js'' = None \<and>
   fst (getPlugin editedDisk childLoader ''B'' False)
     = Inr (Some (examplePlugin (exampleMeta ''B, edited'' ''^1.0.0'' [] False))) \<and>
   loadedPlugins (this childElsewhere) = [] \<and>
   map_of (loadedPlugins (this (the (parent childElsewhere)))) ''B.plugin.js''
     = Some (examplePlugin (exampleMeta ''B'' ''^1.0.0'' [] False)) \<and>
   fst (getPlugin withElsewhere (the (parent childElsewhere)) ''B'' True)
     = Inr (Some (examplePlugin (exampleMeta ''B'' ''^1.0.0'' [] False))) \<and>
   fst (getPlugin withElsewhere childElsewhere ''B'' True) = Inl (FileNotFoundError ''B'') \<and>
   loadedPlugins (this childOfCached) = [] \<and>
   loadedPlugins (this (the (parent childOfCached)))
     = [(''a.plugin.js'', examplePlugin (exampleMeta ''aa'' ''^1.0.0'' [] False))] \<and>
   fst (resolvePluginFilename editedAA childOfCached ''a'') = Inr ''a.plugin.js'' \<and>
   fst (resolvePluginFilename editedAA (the (parent childOfCached)) ''a.plugin.js'') = Inr ''aa.plugin.js'' \<and>
   fst (getPlugin editedAA childOfCached ''a'' True)
     = Inr (Some (examplePlugin (exampleMeta ''aa, edited'' ''^1.0.0'' [] False)))"
  by code_simp

section \<open>The loading queue on pluginLoaded and pluginStarted\<close>

text \<open>
  C2, as amended. When a \<open>pluginLoaded\<close> or \<open>pluginStarted\<close> event is handled, the
  check of every queue entry is evaluated, whatever plugin the event names, and each
  entry whose check gives \<open>true\<close> has its callback called: its promise is no longer
  pending, and for each entry whose promise was pending the continuation of its load is
  scheduled, in queue order. No entry is removed: the queue has the same entries in the
  same order afterwards, and the check of every identifier gives afterwards what it gave
  before, so an entry whose check passed is still queued with a passing check. The check
  of an entry gives the same whether it is evaluated in the loader as the handler found it
  or after the entries before it were dealt with.
\<close>

theorem queue_reevaluated_never_shrinks:
  "loadingQueue (this (loadedListener E l)) =
     map (\<lambda>e. if fst (allDependenciesSatisfied E l (plugin e)) = Inr True
               then e\<lparr>pending := False\<rparr> else e) (loadingQueue (this l)) \<and>
   map plugin (loadingQueue (this (loadedListener E l))) = map plugin (loadingQueue (this l)) \<and>
   tasks (this (loadedListener E l)) =
     tasks (this l) @
     map (\<lambda>e. ResumeLoad (resumes e) (resumeTarget e))
       (filter (\<lambda>e. pending e \<and> fst (allDependenciesSatisfied E l (plugin e)) = Inr True)
          (loadingQueue (this l))) \<and>
   fst (allDependenciesSatisfied E (loadedListener E l) fileID) = fst (allDependenciesSatisfied E l fileID) \<and>
   startedListener E l = loadedListener E l \<and>
   emit E l (PluginLoaded filename) = loadedListener E l \<and>
   emit E l (PluginStarted filename) = loadedListener E l"
proof -
  note c = reevaluate_char [of E "loadingQueue (this l)" l]
  define l1 where "l1 = snd (reevaluate E (loadingQueue (this l)) l)"
  have ll: "loadedListener E l = updThis (\<lambda>s. s\<lparr>loadingQueue := fst (reevaluate E (loadingQueue (this l)) l)\<rparr>) l1"
    by (simp add: loadedListener_def l1_def case_prod_beta)
  have s1: "sameScope E l l1" using c by (simp add: l1_def)
  have "sameScope E l1 (loadedListener E l)"
    unfolding ll by (rule sameScope_updThis) (simp_all add: reads_def)
  then have s2: "sameScope E l (loadedListener E l)"
    using s1 by (blast intro: sameScope_trans)
  have names: "map plugin (map (\<lambda>e. if P e then e\<lparr>pending := False\<rparr> else e) q) = map plugin q" for P q
    by (induction q) simp_all
  show ?thesis
    using c allDependenciesSatisfied_sameScope [OF s2, of fileID]
    by (simp add: ll l1_def names startedListener_def emit_def)
qed

text \<open>
  C2 as stated fails: A waits in the queue for B, B is started again, and after the
  handler has run A's entry is still in the queue and its check passes.
\<close>

theorem passing_entry_stays_queued:
  "map plugin (loadingQueue (this awaitingB)) = [''A.plugin.js''] \<and>
   fst (allDependenciesSatisfied byFileName awaitingB ''A.plugin.js'') = Inr True \<and>
   map plugin (loadingQueue (this (loadedListener byFileName awaitingB)))
     = [''A.plugin.js''] \<and>
   fst (allDependenciesSatisfied byFileName
          (loadedListener byFileName awaitingB) ''A.plugin.js'') = Inr True"
  by code_simp

section \<open>The cascade on pluginStopped and pluginUnloaded\<close>




end
